theory Spec2Isabelle
  imports Main "HOL-Library.Word"
begin

unbundle bit_operations_syntax

section \<open>Data model\<close>

type_synonym u8 = "8 word"
type_synonym u16 = "16 word"
type_synonym u32 = "32 word"
type_synonym u64 = "64 word"

text \<open>
  The macros of \<^verbatim>\<open>flir_defines.h\<close> and \<^verbatim>\<open>utility.h\<close> are not part of the sources at
  hand. Every function below takes them as one parameter \<open>c\<close>; the theorems hold for
  every choice of their values unless a hypothesis says otherwise.
\<close>

record flir_defines =
  I2C1 :: u32
  I2C_TIMEOUT :: u32
  FLIR_BUSY_TIMEOUT :: u16
  LEP_OK :: u8
  LEP_I2C_DEVICE_ADDRESS :: u8
  LEP_I2C_STATUS_REG :: u16
  LEP_I2C_COMMAND_REG :: u16
  LEP_I2C_DATA_LENGTH_REG :: u16
  LEP_I2C_DATA_0_REG :: u16
  LEP_I2C_DATA_BUFFER :: u16
  LEP_I2C_STATUS_BUSY_BIT_MASK :: u16
  LEP_I2C_STATUS_ERROR_CODE_BIT_MASK :: u16
  LEP_I2C_STATUS_ERROR_CODE_BIT_SHIFT :: nat
  LEP_I2C_COMMAND_MODULE_ID_BIT_MASK :: u16
  LEP_I2C_COMMAND_ID_BIT_MASK :: u16
  LEP_I2C_COMMAND_TYPE_BIT_MASK :: u16

text \<open>
  The doc comment of \<^verbatim>\<open>i2c_prepare\<close> fixes the two directions: "If zero then we are
  reading, if one then we are writing".
\<close>

definition I2C_READ_DIR :: u8 where
  "I2C_READ_DIR = 0"

definition I2C_WRITE_DIR :: u8 where
  "I2C_WRITE_DIR = 1"

text \<open>
  What the driver asks of the I2C peripheral, in the order it asks. Each constructor is one
  call into the peripheral library, with the peripheral base address it was given.
\<close>

datatype i2c_op =
    Set7bitAddress u32 u8
  | SetWriteTransferDir u32
  | SetReadTransferDir u32
  | SetBytesToTransfer u32 u8
  | EnableAutoend u32
  | SendStart u32
  | SendData u32 u8

text \<open>
  The state the code reads and writes.
  \<^item> \<open>millis_ctr\<close> is the static \<^verbatim>\<open>_millis\<close> of \<^verbatim>\<open>utility.c\<close>, a \<^verbatim>\<open>uint64_t\<close>.
  \<^item> \<open>last_flir_error\<close> is the static of that name in \<^verbatim>\<open>flir.c\<close>, a \<^verbatim>\<open>uint8_t\<close>.
  \<^item> \<open>mem\<close> is the memory the caller's \<^verbatim>\<open>uint16_t *\<close> buffers point into, one cell per
    word; a pointer is the index of a cell.
  \<^item> \<open>console\<close> collects what \<^verbatim>\<open>printf\<close> prints.
  \<^item> \<open>bus_log\<close> collects the calls into the peripheral, oldest first.
  \<^item> \<open>txis\<close>, \<open>nackf\<close>, \<open>rxne\<close> and \<open>rxdr\<close> are the device. \<open>txis\<close> and \<open>nackf\<close>
    are the value of the peripheral's transmit-ready and not-acknowledged flags at each
    value of the millisecond counter. \<open>rxdr\<close> is the stream of bytes the receive register
    delivers and \<open>rx_count\<close> the number of bytes taken from it so far. \<open>rxne k t\<close> says
    whether byte \<open>k\<close> of the stream is waiting in the receive register when the counter
    is at \<open>t\<close>: the receive-not-empty flag is about the next byte, so taking a byte
    clears it until the byte after has arrived. The code never changes the device fields.
\<close>

record hw =
  millis_ctr :: u64
  last_flir_error :: u8
  mem :: "nat \<Rightarrow> u16"
  console :: "string list"
  bus_log :: "i2c_op list"
  rx_count :: nat
  txis :: "u64 \<Rightarrow> bool"
  nackf :: "u64 \<Rightarrow> bool"
  rxne :: "nat \<Rightarrow> u64 \<Rightarrow> bool"
  rxdr :: "nat \<Rightarrow> u8"

section \<open>The peripheral library and the clock\<close>

definition emit :: "i2c_op \<Rightarrow> hw \<Rightarrow> hw" where
  "emit e s = s\<lparr>bus_log := bus_log s @ [e]\<rparr>"

definition i2c_set_7bit_address :: "u32 \<Rightarrow> u8 \<Rightarrow> hw \<Rightarrow> hw" where
  "i2c_set_7bit_address i2c addr = emit (Set7bitAddress i2c addr)"

definition i2c_set_write_transfer_dir :: "u32 \<Rightarrow> hw \<Rightarrow> hw" where
  "i2c_set_write_transfer_dir i2c = emit (SetWriteTransferDir i2c)"

definition i2c_set_read_transfer_dir :: "u32 \<Rightarrow> hw \<Rightarrow> hw" where
  "i2c_set_read_transfer_dir i2c = emit (SetReadTransferDir i2c)"

definition i2c_set_bytes_to_transfer :: "u32 \<Rightarrow> u8 \<Rightarrow> hw \<Rightarrow> hw" where
  "i2c_set_bytes_to_transfer i2c n = emit (SetBytesToTransfer i2c n)"

definition i2c_enable_autoend :: "u32 \<Rightarrow> hw \<Rightarrow> hw" where
  "i2c_enable_autoend i2c = emit (EnableAutoend i2c)"

definition i2c_send_start :: "u32 \<Rightarrow> hw \<Rightarrow> hw" where
  "i2c_send_start i2c = emit (SendStart i2c)"

definition i2c_send_data :: "u32 \<Rightarrow> u8 \<Rightarrow> hw \<Rightarrow> hw" where
  "i2c_send_data i2c b = emit (SendData i2c b)"

definition i2c_transmit_int_status :: "u32 \<Rightarrow> hw \<Rightarrow> bool" where
  "i2c_transmit_int_status i2c s = txis s (millis_ctr s)"

definition i2c_nack :: "u32 \<Rightarrow> hw \<Rightarrow> bool" where
  "i2c_nack i2c s = nackf s (millis_ctr s)"

definition i2c_received_data :: "u32 \<Rightarrow> hw \<Rightarrow> bool" where
  "i2c_received_data i2c s = rxne s (rx_count s) (millis_ctr s)"

definition i2c_get_data :: "u32 \<Rightarrow> hw \<Rightarrow> u8 \<times> hw" where
  "i2c_get_data i2c s = (rxdr s (rx_count s), s\<lparr>rx_count := Suc (rx_count s)\<rparr>)"

definition millis :: "hw \<Rightarrow> u64" where
  "millis s = millis_ctr s"

definition sys_tick_handler :: "hw \<Rightarrow> hw" where
  "sys_tick_handler s = s\<lparr>millis_ctr := millis_ctr s + 1\<rparr>"

definition printf :: "string \<Rightarrow> hw \<Rightarrow> hw" where
  "printf msg s = s\<lparr>console := console s @ [msg]\<rparr>"

text \<open>
  Time passes only through \<open>sys_tick_handler\<close>. The code has four busy-wait loops, which
  do nothing but poll a flag or the counter: the loop of \<^verbatim>\<open>delay\<close>, the loops of
  \<^verbatim>\<open>wait_for_ack\<close> and \<^verbatim>\<open>wait_for_empty_data_reg\<close>, and the \<^verbatim>\<open>while (wait)\<close> loop of
  the write functions. The interrupt is taken once each time such a loop goes round again:
  the polls between two ticks see the same flags and the same counter, so they are one
  poll. A loop that may go round for ever is a partial function, with \<open>None\<close> for a call
  that does not return.
\<close>

function delay_spin :: "u64 \<Rightarrow> hw \<Rightarrow> hw" where
  "delay_spin until s = (if millis s < until then delay_spin until (sys_tick_handler s) else s)"
  by pat_completeness auto
termination
proof (relation "measure (\<lambda>(until, s). unat until - unat (millis_ctr s))")
  show "wf (measure (\<lambda>(until, s). unat until - unat (millis_ctr s)))"
    by simp
next
  fix until :: u64 and s :: hw
  assume lt: "millis s < until"
  then have a: "unat (millis_ctr s) < unat until"
    by (simp add: millis_def word_less_nat_alt)
  have "unat until < 2 ^ 64"
    using unsigned_less [of until] by simp
  with a have "unat (millis_ctr s) + 1 < 2 ^ 64"
    by simp
  then have "unat (millis_ctr s + 1) = unat (millis_ctr s) + 1"
    by (simp add: unat_word_ariths)
  with a show "((until, sys_tick_handler s), (until, s))
      \<in> measure (\<lambda>(until, s). unat until - unat (millis_ctr s))"
    by (simp add: sys_tick_handler_def)
qed

declare delay_spin.simps [simp del]

definition delay :: "u64 \<Rightarrow> hw \<Rightarrow> hw" where
  "delay duration s = (let until = millis s + duration in delay_spin until s)"

partial_function (option) wait_for_ack_spin :: "flir_defines \<Rightarrow> u64 \<Rightarrow> hw \<Rightarrow> (bool \<times> hw) option" where
  "wait_for_ack_spin c until s =
     (if i2c_nack (I2C1 c) s
      then (if millis s > until then Some (False, s)
            else wait_for_ack_spin c until (sys_tick_handler s))
      else Some (True, s))"

definition wait_for_ack :: "flir_defines \<Rightarrow> u32 \<Rightarrow> hw \<Rightarrow> (bool \<times> hw) option" where
  "wait_for_ack c timeout s = (let until = millis s + ucast timeout in wait_for_ack_spin c until s)"

partial_function (option) wait_for_empty_data_reg_spin ::
    "flir_defines \<Rightarrow> u64 \<Rightarrow> hw \<Rightarrow> (bool \<times> hw) option" where
  "wait_for_empty_data_reg_spin c until s =
     (if \<not> i2c_received_data (I2C1 c) s
      then (if millis s > until then Some (False, s)
            else wait_for_empty_data_reg_spin c until (sys_tick_handler s))
      else Some (True, s))"

definition wait_for_empty_data_reg :: "flir_defines \<Rightarrow> u32 \<Rightarrow> hw \<Rightarrow> (bool \<times> hw) option" where
  "wait_for_empty_data_reg c timeout s =
     (let until = millis s + ucast timeout in wait_for_empty_data_reg_spin c until s)"

section \<open>Byte transport and word codec (utility.c)\<close>

definition i2c_prepare :: "u32 \<Rightarrow> u8 \<Rightarrow> u8 \<Rightarrow> u8 \<Rightarrow> hw \<Rightarrow> hw" where
  "i2c_prepare i2c addr dir num_bytes s =
     (let s1 = i2c_set_7bit_address i2c addr s;
          s2 = (if dir \<noteq> 0 then i2c_set_write_transfer_dir i2c s1
                else i2c_set_read_transfer_dir i2c s1);
          s3 = i2c_set_bytes_to_transfer i2c num_bytes s2
      in if dir \<noteq> 0 then i2c_send_start i2c (i2c_enable_autoend i2c s3)
         else i2c_enable_autoend i2c (i2c_send_start i2c s3))"

text \<open>
  The \<^verbatim>\<open>while (wait)\<close> loop that precedes every transmitted byte. \<open>Some (True, s')\<close>: the
  loop was left and the byte may be sent; \<open>Some (False, s')\<close>: \<^verbatim>\<open>wait_for_ack\<close> failed
  and the enclosing function returns \<^verbatim>\<open>false\<close>.
\<close>

partial_function (option) tx_wait :: "flir_defines \<Rightarrow> hw \<Rightarrow> (bool \<times> hw) option" where
  "tx_wait c s =
     (let wait = \<not> i2c_transmit_int_status (I2C1 c) s
      in case wait_for_ack c (I2C_TIMEOUT c) s of
           None \<Rightarrow> None
         | Some r \<Rightarrow>
             if \<not> fst r then Some (False, snd r)
             else if wait then tx_wait c (sys_tick_handler (snd r))
             else Some (True, snd r))"

text \<open>The \<^verbatim>\<open>for\<close> loop of \<^verbatim>\<open>i2c_write16\<close> over \<^verbatim>\<open>separated_bytes\<close>.\<close>

fun send_separated_bytes :: "flir_defines \<Rightarrow> u8 list \<Rightarrow> hw \<Rightarrow> (bool \<times> hw) option" where
  "send_separated_bytes c [] s = Some (True, s)"
| "send_separated_bytes c (b # bs) s =
     (case tx_wait c s of
        None \<Rightarrow> None
      | Some r \<Rightarrow>
          if \<not> fst r then Some (False, snd r)
          else send_separated_bytes c bs (i2c_send_data (I2C1 c) b (snd r)))"

definition i2c_write16 :: "flir_defines \<Rightarrow> u8 \<Rightarrow> u16 \<Rightarrow> hw \<Rightarrow> (bool \<times> hw) option" where
  "i2c_write16 c addr data s =
     (let separated_bytes = [(ucast (drop_bit 8 data) :: u8) AND 0xFF, (ucast data :: u8) AND 0xFF]
      in send_separated_bytes c separated_bytes (i2c_prepare (I2C1 c) addr I2C_WRITE_DIR 2 s))"

text \<open>
  \<^verbatim>\<open>i2c_write16_array\<close>: \<open>data\<close> is the array the pointer refers to and \<open>k\<close> the index the
  pointer has reached; \<open>n\<close> is the \<^verbatim>\<open>uint16_t num_bytes\<close> still to go.
\<close>

fun i2c_write16_array_loop ::
    "flir_defines \<Rightarrow> nat \<Rightarrow> bool \<Rightarrow> u16 list \<Rightarrow> nat \<Rightarrow> hw \<Rightarrow> (bool \<times> hw) option" where
  "i2c_write16_array_loop c 0 high_byte data k s = Some (True, s)"
| "i2c_write16_array_loop c (Suc n) high_byte data k s =
     (case tx_wait c s of
        None \<Rightarrow> None
      | Some r \<Rightarrow>
          if \<not> fst r then Some (False, snd r)
          else if high_byte
          then i2c_write16_array_loop c n False data k
                 (i2c_send_data (I2C1 c) ((ucast (drop_bit 8 (data ! k)) :: u8) AND 0xFF) (snd r))
          else i2c_write16_array_loop c n True data (Suc k)
                 (i2c_send_data (I2C1 c) (ucast (data ! k AND 0xFF)) (snd r)))"

definition i2c_write16_array :: "flir_defines \<Rightarrow> u8 \<Rightarrow> u16 list \<Rightarrow> u8 \<Rightarrow> hw \<Rightarrow> (bool \<times> hw) option" where
  "i2c_write16_array c addr data num_words s =
     i2c_write16_array_loop c (2 * unat num_words) True data 0
       (i2c_prepare (I2C1 c) addr I2C_WRITE_DIR (2 * num_words) s)"

text \<open>
  \<^verbatim>\<open>i2c_read16\<close>: the result \<open>None\<close> inside \<open>Some\<close> is the return value \<^verbatim>\<open>false\<close>, with
  \<^verbatim>\<open>*data\<close> left alone; \<open>Some v\<close> is \<^verbatim>\<open>true\<close> with \<open>v\<close> stored through the pointer.
\<close>

definition i2c_read16 :: "flir_defines \<Rightarrow> u8 \<Rightarrow> hw \<Rightarrow> (u16 option \<times> hw) option" where
  "i2c_read16 c addr s =
     (case wait_for_empty_data_reg c (I2C_TIMEOUT c) (i2c_prepare (I2C1 c) addr I2C_READ_DIR 2 s) of
        None \<Rightarrow> None
      | Some r0 \<Rightarrow>
          if \<not> fst r0 then Some (None, snd r0)
          else let g0 = i2c_get_data (I2C1 c) (snd r0)
          in (case wait_for_empty_data_reg c (I2C_TIMEOUT c) (snd g0) of
                None \<Rightarrow> None
              | Some r1 \<Rightarrow>
                  if \<not> fst r1 then Some (None, snd r1)
                  else let g1 = i2c_get_data (I2C1 c) (snd r1)
                  in Some (Some (push_bit 8 (ucast (fst g0)) OR ucast (fst g1)), snd g1)))"

text \<open>
  The loop of \<^verbatim>\<open>i2c_read16_array\<close>. The counter \<open>i\<close> is a \<^verbatim>\<open>uint8_t\<close>; the comparison
  \<^verbatim>\<open>i < (2 * num_words)\<close> is made on \<^verbatim>\<open>int\<close>, after promotion. \<open>data\<close> is the pointer.
\<close>

partial_function (option) i2c_read16_array_loop ::
    "flir_defines \<Rightarrow> u8 \<Rightarrow> u8 \<Rightarrow> bool \<Rightarrow> u16 \<Rightarrow> nat \<Rightarrow> hw \<Rightarrow> (bool \<times> hw) option" where
  "i2c_read16_array_loop c num_words i high_byte high data s =
     (if uint i < 2 * uint num_words
      then case wait_for_empty_data_reg c (I2C_TIMEOUT c) s of
             None \<Rightarrow> None
           | Some r \<Rightarrow>
               if \<not> fst r then Some (False, snd r)
               else let g = i2c_get_data (I2C1 c) (snd r)
               in if high_byte
                  then i2c_read16_array_loop c num_words (i + 1) False (ucast (fst g)) data (snd g)
                  else i2c_read16_array_loop c num_words (i + 1) True high (Suc data)
                         ((snd g)\<lparr>mem := (mem (snd g))(data := push_bit 8 high OR ucast (fst g))\<rparr>)
      else Some (True, s))"

definition i2c_read16_array :: "flir_defines \<Rightarrow> u8 \<Rightarrow> nat \<Rightarrow> u8 \<Rightarrow> hw \<Rightarrow> (bool \<times> hw) option" where
  "i2c_read16_array c addr data num_words s =
     i2c_read16_array_loop c num_words 0 True 0 data
       (i2c_prepare (I2C1 c) addr I2C_READ_DIR (2 * num_words) s)"

section \<open>Register access and command protocol (flir.c)\<close>

definition flir_delay :: "u32 \<Rightarrow> hw \<Rightarrow> hw" where
  "flir_delay delay_in_ms s = delay (ucast delay_in_ms) s"

definition flir_millis :: "hw \<Rightarrow> u32" where
  "flir_millis s = ucast (millis s)"

definition write_register :: "flir_defines \<Rightarrow> u16 \<Rightarrow> u16 \<Rightarrow> hw \<Rightarrow> (bool \<times> hw) option" where
  "write_register c reg_address v s =
     (let temp_buf = [reg_address, v]
      in case i2c_write16_array c (LEP_I2C_DEVICE_ADDRESS c) temp_buf 2 s of
           None \<Rightarrow> None
         | Some r \<Rightarrow> if \<not> fst r then Some (False, snd r) else Some (True, snd r))"

definition read_register :: "flir_defines \<Rightarrow> u16 \<Rightarrow> hw \<Rightarrow> (u16 option \<times> hw) option" where
  "read_register c reg_address s =
     (case i2c_write16 c (LEP_I2C_DEVICE_ADDRESS c) reg_address s of
        None \<Rightarrow> None
      | Some r \<Rightarrow>
          if \<not> fst r then Some (None, snd r)
          else i2c_read16 c (LEP_I2C_DEVICE_ADDRESS c) (snd r))"

definition command_code :: "flir_defines \<Rightarrow> u16 \<Rightarrow> u16 \<Rightarrow> u16" where
  "command_code c cmd_id cmd_type =
     (cmd_id AND LEP_I2C_COMMAND_MODULE_ID_BIT_MASK c) OR
     (cmd_id AND LEP_I2C_COMMAND_ID_BIT_MASK c) OR
     (cmd_type AND LEP_I2C_COMMAND_TYPE_BIT_MASK c)"

definition error_code_of :: "flir_defines \<Rightarrow> u16 \<Rightarrow> u8" where
  "error_code_of c status =
     ucast (drop_bit (LEP_I2C_STATUS_ERROR_CODE_BIT_SHIFT c)
              (status AND LEP_I2C_STATUS_ERROR_CODE_BIT_MASK c))"

text \<open>
  The \<^verbatim>\<open>while\<close> loop of \<^verbatim>\<open>wait_busy_bit\<close>. \<open>Some (None, s')\<close>: a register read failed and
  the function returned \<^verbatim>\<open>false\<close> from inside the loop; \<open>Some (Some status', s')\<close>: the
  loop was left with that status.
\<close>

partial_function (option) wait_busy_loop ::
    "flir_defines \<Rightarrow> u32 \<Rightarrow> u16 \<Rightarrow> hw \<Rightarrow> (u16 option \<times> hw) option" where
  "wait_busy_loop c end_time status s =
     (if status AND LEP_I2C_STATUS_BUSY_BIT_MASK c \<noteq> 0 \<and> flir_millis s < end_time
      then case read_register c (LEP_I2C_STATUS_REG c) (flir_delay 1 s) of
             None \<Rightarrow> None
           | Some r \<Rightarrow>
               (case fst r of
                  None \<Rightarrow> Some (None, snd r)
                | Some status' \<Rightarrow> wait_busy_loop c end_time status' (snd r))
      else Some (Some status, s))"

definition wait_busy_bit :: "flir_defines \<Rightarrow> u16 \<Rightarrow> hw \<Rightarrow> (bool \<times> hw) option" where
  "wait_busy_bit c timeout s =
     (case read_register c (LEP_I2C_STATUS_REG c) s of
        None \<Rightarrow> None
      | Some r \<Rightarrow>
          (case fst r of
             None \<Rightarrow> Some (False, snd r)
           | Some status \<Rightarrow>
               if status AND LEP_I2C_STATUS_BUSY_BIT_MASK c = 0
               then Some (True, (snd r)\<lparr>last_flir_error := error_code_of c status\<rparr>)
               else let end_time = flir_millis (snd r) + ucast timeout
               in (case wait_busy_loop c end_time status (snd r) of
                     None \<Rightarrow> None
                   | Some r' \<Rightarrow>
                       (case fst r' of
                          None \<Rightarrow> Some (False, snd r')
                        | Some status' \<Rightarrow>
                            if status' AND LEP_I2C_STATUS_BUSY_BIT_MASK c = 0
                            then Some (True, (snd r')\<lparr>last_flir_error := error_code_of c status'\<rparr>)
                            else Some (False, printf (''Fail 3'' @ [CHR 0x0A]) (snd r'))))))"

definition get_last_flir_result :: "hw \<Rightarrow> u8" where
  "get_last_flir_result s = last_flir_error s"

definition read_data_register :: "flir_defines \<Rightarrow> nat \<Rightarrow> u8 \<Rightarrow> hw \<Rightarrow> (bool \<times> hw) option" where
  "read_data_register c read_words max_length s =
     (case i2c_write16 c (LEP_I2C_DEVICE_ADDRESS c) (LEP_I2C_DATA_LENGTH_REG c) s of
        None \<Rightarrow> None
      | Some r \<Rightarrow>
          if \<not> fst r then Some (False, snd r)
          else (case i2c_read16 c (LEP_I2C_DEVICE_ADDRESS c) (snd r) of
                  None \<Rightarrow> None
                | Some r' \<Rightarrow>
                    (case fst r' of
                       None \<Rightarrow> Some (False, snd r')
                     | Some num_bytes \<Rightarrow>
                         if 0 = num_bytes then Some (False, snd r')
                         else if uint max_length * 2 \<noteq> uint num_bytes then Some (False, snd r')
                         else (case i2c_read16_array c (LEP_I2C_DEVICE_ADDRESS c) read_words
                                      max_length (snd r') of
                                 None \<Rightarrow> None
                               | Some r'' \<Rightarrow>
                                   if \<not> fst r'' then Some (False, snd r'')
                                   else Some (True, snd r'')))))"

definition get_flir_command :: "flir_defines \<Rightarrow> u16 \<Rightarrow> nat \<Rightarrow> u8 \<Rightarrow> hw \<Rightarrow> (bool \<times> hw) option" where
  "get_flir_command c cmd_code data_words num_words s =
     (case wait_busy_bit c (FLIR_BUSY_TIMEOUT c) s of
        None \<Rightarrow> None
      | Some r1 \<Rightarrow>
          if \<not> fst r1 then Some (False, snd r1)
          else (case write_register c (LEP_I2C_COMMAND_REG c) cmd_code (snd r1) of
                  None \<Rightarrow> None
                | Some r2 \<Rightarrow>
                    if \<not> fst r2 then Some (False, snd r2)
                    else (case wait_busy_bit c (FLIR_BUSY_TIMEOUT c) (snd r2) of
                            None \<Rightarrow> None
                          | Some r3 \<Rightarrow>
                              if \<not> fst r3 then Some (False, snd r3)
                              else (case read_data_register c data_words num_words (snd r3) of
                                      None \<Rightarrow> None
                                    | Some r4 \<Rightarrow>
                                        if fst r4 then Some (True, snd r4)
                                        else Some (False, snd r4)))))"

text \<open>
  \<^verbatim>\<open>set_flir_command\<close> calls \<^verbatim>\<open>write_command_register\<close>, which \<^verbatim>\<open>flir.c\<close> does not
  define: the only body in the file is inside a comment and is written against another bus
  interface. The two definitions that follow stand for it, from the words of the
  specification.
\<close>




section \<open>What the bus functions leave alone\<close>

text \<open>
  \<open>bus_frame s s'\<close>: the two states have the same last-error slot, memory, console and
  device. The bus functions change only the counter, the log and the number of bytes taken.
\<close>

definition bus_frame :: "hw \<Rightarrow> hw \<Rightarrow> bool" where
  "bus_frame s s' =
     (last_flir_error s' = last_flir_error s \<and> mem s' = mem s \<and> console s' = console s \<and>
      txis s' = txis s \<and> nackf s' = nackf s \<and> rxne s' = rxne s \<and> rxdr s' = rxdr s)"

text \<open>
  A device that answers at once, whatever the time: the transmitter is ready, no NACK is
  seen and a received byte is waiting. \<open>status_at s k\<close> is the word that a read assembles
  from the bytes \<open>k\<close> and \<open>k + 1\<close> of the stream.
\<close>

definition instant :: "hw \<Rightarrow> bool" where
  "instant s = (txis s = (\<lambda>_. True) \<and> nackf s = (\<lambda>_. False) \<and> rxne s = (\<lambda>_ _. True))"

definition status_at :: "hw \<Rightarrow> nat \<Rightarrow> u16" where
  "status_at s k = push_bit 8 (ucast (rxdr s k)) OR ucast (rxdr s (Suc k))"

text \<open>
  The bytes that a word array puts on the bus: of each word the high byte, then the low
  byte.
\<close>

definition word_bytes :: "u16 list \<Rightarrow> u8 list" where
  "word_bytes ws = concat (map (\<lambda>w. [ucast (drop_bit 8 w), ucast w]) ws)"

section \<open>A sample configuration and sample devices\<close>

text \<open>
  Values for the worked examples: the register map and the bit masks of the camera's
  interface description, and two short timeouts. The general theorems do not depend
  on them.
\<close>

definition lepton :: flir_defines where
  "lepton = \<lparr>I2C1 = 0x40005400, I2C_TIMEOUT = 3, FLIR_BUSY_TIMEOUT = 5, LEP_OK = 0,
     LEP_I2C_DEVICE_ADDRESS = 0x2A, LEP_I2C_STATUS_REG = 0x0002, LEP_I2C_COMMAND_REG = 0x0004,
     LEP_I2C_DATA_LENGTH_REG = 0x0006, LEP_I2C_DATA_0_REG = 0x0008, LEP_I2C_DATA_BUFFER = 0xF800,
     LEP_I2C_STATUS_BUSY_BIT_MASK = 0x0001, LEP_I2C_STATUS_ERROR_CODE_BIT_MASK = 0xFF00,
     LEP_I2C_STATUS_ERROR_CODE_BIT_SHIFT = 8, LEP_I2C_COMMAND_MODULE_ID_BIT_MASK = 0x0F00,
     LEP_I2C_COMMAND_ID_BIT_MASK = 0x00FC, LEP_I2C_COMMAND_TYPE_BIT_MASK = 0x0003\<rparr>"

text \<open>
  A board whose counter stands at \<open>t0\<close>, with nothing logged, printed or received yet and
  the last-error slot at its initial value. Its transmitter is always ready and never sees
  a NACK; \<open>rx\<close> says when a received byte is waiting, the same for every byte, and
  \<open>bytes\<close> are the bytes it delivers.
\<close>

definition board :: "u64 \<Rightarrow> (u64 \<Rightarrow> bool) \<Rightarrow> (nat \<Rightarrow> u8) \<Rightarrow> hw" where
  "board t0 rx bytes = \<lparr>millis_ctr = t0, last_flir_error = LEP_OK lepton, mem = (\<lambda>_. 0),
     console = [], bus_log = [], rx_count = 0, txis = (\<lambda>_. True), nackf = (\<lambda>_. False),
     rxne = (\<lambda>_. rx), rxdr = bytes\<rparr>"

definition always_ready :: "u64 \<Rightarrow> bool" where
  "always_ready = (\<lambda>_. True)"

definition never_ready :: "u64 \<Rightarrow> bool" where
  "never_ready = (\<lambda>_. False)"

definition ready_at_zero_only :: "u64 \<Rightarrow> bool" where
  "ready_at_zero_only = (\<lambda>t. t < 1)"

text \<open>Every status word read from \<open>busy_bytes\<close> is \<open>0x0001\<close>: busy, no error.\<close>

definition busy_bytes :: "nat \<Rightarrow> u8" where
  "busy_bytes = (\<lambda>n. if odd n then 1 else 0)"

text \<open>The first status word read from \<open>err3_bytes\<close> is \<open>0x0300\<close>: not busy, error code 3.\<close>

definition err3_bytes :: "nat \<Rightarrow> u8" where
  "err3_bytes = (\<lambda>n. if n = 0 then 3 else 0)"

text \<open>
  Two status words \<open>0x0000\<close> (not busy, no error), then a data length of \<open>0x0005\<close>, then
  the bytes \<open>0x11\<close>, \<open>0x22\<close>, \<open>0x33\<close>, \<open>0x44\<close>.
\<close>

definition length5_bytes :: "nat \<Rightarrow> u8" where
  "length5_bytes = (\<lambda>n. if n = 5 then 5 else if n = 6 then 0x11 else if n = 7 then 0x22
     else if n = 8 then 0x33 else if n = 9 then 0x44 else 0)"

text \<open>The bytes \<open>0xBE\<close> and \<open>0xEF\<close>, then zeros.\<close>

definition beef_bytes :: "nat \<Rightarrow> u8" where
  "beef_bytes = (\<lambda>n. if n = 0 then 0xBE else if n = 1 then 0xEF else 0)"

text \<open>
  A device whose first three bytes are there from the start and whose fourth never comes.
\<close>

definition three_bytes_only :: "nat \<Rightarrow> u64 \<Rightarrow> bool" where
  "three_bytes_only = (\<lambda>k t. k < 3)"

text \<open>What one read of the status register adds to the log, with the sample values.\<close>

definition status_read_log :: "i2c_op list" where
  "status_read_log =
     [Set7bitAddress 0x40005400 0x2A, SetWriteTransferDir 0x40005400,
      SetBytesToTransfer 0x40005400 2, EnableAutoend 0x40005400, SendStart 0x40005400,
      SendData 0x40005400 0x00, SendData 0x40005400 0x02,
      Set7bitAddress 0x40005400 0x2A, SetReadTransferDir 0x40005400,
      SetBytesToTransfer 0x40005400 2, SendStart 0x40005400, EnableAutoend 0x40005400]"

text \<open>
  What the other steps of a GET command add to the log, with the sample values: the write
  of the command code \<open>0x0304\<close> to the command register, the write that points at the
  data-length register, and the set-up of a two-byte read.
\<close>

definition command_write_log :: "i2c_op list" where
  "command_write_log =
     [Set7bitAddress 0x40005400 0x2A, SetWriteTransferDir 0x40005400,
      SetBytesToTransfer 0x40005400 4, EnableAutoend 0x40005400, SendStart 0x40005400,
      SendData 0x40005400 0x00, SendData 0x40005400 0x04,
      SendData 0x40005400 0x03, SendData 0x40005400 0x04]"

definition length_pointer_log :: "i2c_op list" where
  "length_pointer_log =
     [Set7bitAddress 0x40005400 0x2A, SetWriteTransferDir 0x40005400,
      SetBytesToTransfer 0x40005400 2, EnableAutoend 0x40005400, SendStart 0x40005400,
      SendData 0x40005400 0x00, SendData 0x40005400 0x06]"

definition word_read_log :: "i2c_op list" where
  "word_read_log =
     [Set7bitAddress 0x40005400 0x2A, SetReadTransferDir 0x40005400,
      SetBytesToTransfer 0x40005400 2, SendStart 0x40005400, EnableAutoend 0x40005400]"

section \<open>Basic facts\<close>

lemmas periph_defs = emit_def i2c_set_7bit_address_def i2c_set_write_transfer_dir_def
  i2c_set_read_transfer_dir_def i2c_set_bytes_to_transfer_def i2c_enable_autoend_def
  i2c_send_start_def i2c_send_data_def i2c_transmit_int_status_def i2c_nack_def
  i2c_received_data_def i2c_get_data_def millis_def sys_tick_handler_def printf_def

subsection \<open>A device that is ready\<close>

lemma wait_for_ack_ready:
  "\<not> nackf s (millis_ctr s) \<Longrightarrow> wait_for_ack c t s = Some (True, s)"
  by (simp add: wait_for_ack_def wait_for_ack_spin.simps i2c_nack_def)

lemma wait_for_empty_data_reg_ready:
  "rxne s (rx_count s) (millis_ctr s) \<Longrightarrow> wait_for_empty_data_reg c t s = Some (True, s)"
  by (simp add: wait_for_empty_data_reg_def wait_for_empty_data_reg_spin.simps
      i2c_received_data_def)

lemma tx_wait_ready:
  "txis s (millis_ctr s) \<Longrightarrow> \<not> nackf s (millis_ctr s) \<Longrightarrow> tx_wait c s = Some (True, s)"
  by (subst tx_wait.simps) (simp add: wait_for_ack_ready i2c_transmit_int_status_def)

subsection \<open>Frame lemmas\<close>

lemma bus_frame_refl [simp]: "bus_frame s s"
  by (simp add: bus_frame_def)

lemma bus_frame_trans: "bus_frame s s1 \<Longrightarrow> bus_frame s1 s2 \<Longrightarrow> bus_frame s s2"
  by (simp add: bus_frame_def)

lemma bus_frame_emit [simp]:
  "bus_frame s (emit e s') = bus_frame s s'" "bus_frame (emit e s) s' = bus_frame s s'"
  by (simp_all add: bus_frame_def emit_def)

lemma bus_frame_tick [simp]:
  "bus_frame s (sys_tick_handler s') = bus_frame s s'"
  "bus_frame (sys_tick_handler s) s' = bus_frame s s'"
  by (simp_all add: bus_frame_def sys_tick_handler_def)

lemma bus_frame_get_data [simp]:
  "bus_frame s (snd (i2c_get_data i2c s')) = bus_frame s s'"
  "bus_frame (snd (i2c_get_data i2c s)) s' = bus_frame s s'"
  by (simp_all add: bus_frame_def i2c_get_data_def)

lemma bus_frame_send_data [simp]:
  "bus_frame s (i2c_send_data i2c b s') = bus_frame s s'"
  "bus_frame (i2c_send_data i2c b s) s' = bus_frame s s'"
  by (simp_all add: i2c_send_data_def)

lemma bus_frame_prepare [simp]:
  "bus_frame s (i2c_prepare i2c a d n s') = bus_frame s s'"
  "bus_frame (i2c_prepare i2c a d n s) s' = bus_frame s s'"
  by (simp_all add: i2c_prepare_def Let_def i2c_set_7bit_address_def
      i2c_set_write_transfer_dir_def i2c_set_read_transfer_dir_def
      i2c_set_bytes_to_transfer_def i2c_enable_autoend_def i2c_send_start_def)

lemma bus_frame_delay_spin: "bus_frame (delay_spin until s) s' = bus_frame s s'"
  by (induction until s rule: delay_spin.induct) (subst delay_spin.simps, simp)

lemma bus_frame_flir_delay [simp]: "bus_frame (flir_delay d s) s' = bus_frame s s'"
  by (simp add: flir_delay_def delay_def bus_frame_delay_spin)

lemma wait_for_ack_spin_frame:
  assumes "wait_for_ack_spin c until s = Some r"
  shows "bus_frame s (snd r)"
  using assms
proof (rule wait_for_ack_spin.raw_induct [rotated, where P = "\<lambda>c until s r. bus_frame s (snd r)"])
  fix f c until s r
  assume ih: "\<And>c until s r. f c until s = Some r \<Longrightarrow> bus_frame s (snd r)"
    and body: "(if i2c_nack (I2C1 c) s
      then if until < millis s then Some (False, s) else f c until (sys_tick_handler s)
      else Some (True, s)) = Some r"
  from body consider "snd r = s" | "f c until (sys_tick_handler s) = Some r"
    by (auto split: if_splits)
  then show "bus_frame s (snd r)"
  proof cases
    case 1
    then show ?thesis by simp
  next
    case 2
    from ih [OF 2] show ?thesis by simp
  qed
qed

lemma wait_for_ack_frame: "wait_for_ack c t s = Some r \<Longrightarrow> bus_frame s (snd r)"
  by (simp add: wait_for_ack_def wait_for_ack_spin_frame)

lemma wait_for_empty_data_reg_spin_frame:
  assumes "wait_for_empty_data_reg_spin c until s = Some r"
  shows "bus_frame s (snd r)"
  using assms
proof (rule wait_for_empty_data_reg_spin.raw_induct
        [rotated, where P = "\<lambda>c until s r. bus_frame s (snd r)"])
  fix f c until s r
  assume ih: "\<And>c until s r. f c until s = Some r \<Longrightarrow> bus_frame s (snd r)"
    and body: "(if \<not> i2c_received_data (I2C1 c) s
      then if until < millis s then Some (False, s) else f c until (sys_tick_handler s)
      else Some (True, s)) = Some r"
  from body consider "snd r = s" | "f c until (sys_tick_handler s) = Some r"
    by (auto split: if_splits)
  then show "bus_frame s (snd r)"
  proof cases
    case 1
    then show ?thesis by simp
  next
    case 2
    from ih [OF 2] show ?thesis by simp
  qed
qed

lemma wait_for_empty_data_reg_frame:
  "wait_for_empty_data_reg c t s = Some r \<Longrightarrow> bus_frame s (snd r)"
  by (simp add: wait_for_empty_data_reg_def wait_for_empty_data_reg_spin_frame)

lemma tx_wait_frame:
  assumes "tx_wait c s = Some r"
  shows "bus_frame s (snd r)"
  using assms
proof (rule tx_wait.raw_induct [rotated, where P = "\<lambda>c s r. bus_frame s (snd r)"])
  fix f c s r
  assume ih: "\<And>c s r. f c s = Some r \<Longrightarrow> bus_frame s (snd r)"
    and body: "(let wait = \<not> i2c_transmit_int_status (I2C1 c) s
      in case wait_for_ack c (I2C_TIMEOUT c) s of None \<Rightarrow> None
         | Some r \<Rightarrow> if \<not> fst r then Some (False, snd r)
             else if wait then f c (sys_tick_handler (snd r)) else Some (True, snd r)) = Some r"
  from body obtain r0 where r0: "wait_for_ack c (I2C_TIMEOUT c) s = Some r0"
    by (auto simp: Let_def split: option.splits)
  have a: "bus_frame s (snd r0)"
    using r0 by (rule wait_for_ack_frame)
  from body r0 consider "snd r = snd r0" | "f c (sys_tick_handler (snd r0)) = Some r"
    by (auto simp: Let_def split: if_splits)
  then show "bus_frame s (snd r)"
  proof cases
    case 1
    with a show ?thesis by simp
  next
    case 2
    from ih [OF 2] have "bus_frame (snd r0) (snd r)" by simp
    with a show ?thesis by (rule bus_frame_trans)
  qed
qed

lemma send_separated_bytes_frame:
  "send_separated_bytes c bs s = Some r \<Longrightarrow> bus_frame s (snd r)"
proof (induction bs arbitrary: s)
  case Nil
  then show ?case by auto
next
  case (Cons b bs)
  from Cons.prems obtain r0 where r0: "tx_wait c s = Some r0"
    by (auto split: option.splits)
  have a: "bus_frame s (snd r0)"
    using r0 by (rule tx_wait_frame)
  show ?case
  proof (cases "fst r0")
    case False
    with Cons.prems r0 a show ?thesis by auto
  next
    case True
    with Cons.prems r0
    have "send_separated_bytes c bs (i2c_send_data (I2C1 c) b (snd r0)) = Some r"
      by simp
    from Cons.IH [OF this] have "bus_frame (snd r0) (snd r)" by simp
    with a show ?thesis by (rule bus_frame_trans)
  qed
qed

lemma i2c_write16_frame: "i2c_write16 c a d s = Some r \<Longrightarrow> bus_frame s (snd r)"
  unfolding i2c_write16_def Let_def
  by (drule send_separated_bytes_frame) simp

lemma i2c_read16_frame:
  assumes "i2c_read16 c a s = Some r"
  shows "bus_frame s (snd r)"
proof -
  let ?s0 = "i2c_prepare (I2C1 c) a I2C_READ_DIR 2 s"
  from assms obtain r0 where r0: "wait_for_empty_data_reg c (I2C_TIMEOUT c) ?s0 = Some r0"
    by (auto simp: i2c_read16_def split: option.splits)
  from wait_for_empty_data_reg_frame [OF r0] have a: "bus_frame s (snd r0)"
    by simp
  show ?thesis
  proof (cases "fst r0")
    case False
    with assms r0 a show ?thesis by (auto simp: i2c_read16_def)
  next
    case True
    let ?s2 = "snd (i2c_get_data (I2C1 c) (snd r0))"
    from assms r0 True obtain r1 where
      r1: "wait_for_empty_data_reg c (I2C_TIMEOUT c) ?s2 = Some r1"
      by (auto simp: i2c_read16_def Let_def split: option.splits)
    from wait_for_empty_data_reg_frame [OF r1] have "bus_frame (snd r0) (snd r1)"
      by simp
    with a have b: "bus_frame s (snd r1)"
      by (rule bus_frame_trans)
    from assms r0 True r1 have "snd r = snd r1 \<or> snd r = snd (i2c_get_data (I2C1 c) (snd r1))"
      by (auto simp: i2c_read16_def Let_def split: if_splits)
    with b show ?thesis by auto
  qed
qed

lemma read_register_frame:
  assumes "read_register c a s = Some r"
  shows "bus_frame s (snd r)"
proof -
  from assms obtain r0 where r0: "i2c_write16 c (LEP_I2C_DEVICE_ADDRESS c) a s = Some r0"
    by (auto simp: read_register_def split: option.splits)
  have a: "bus_frame s (snd r0)"
    using r0 by (rule i2c_write16_frame)
  show ?thesis
  proof (cases "fst r0")
    case False
    with assms r0 a show ?thesis by (auto simp: read_register_def)
  next
    case True
    with assms r0 have "i2c_read16 c (LEP_I2C_DEVICE_ADDRESS c) (snd r0) = Some r"
      by (simp add: read_register_def)
    then have "bus_frame (snd r0) (snd r)" by (rule i2c_read16_frame)
    with a show ?thesis by (rule bus_frame_trans)
  qed
qed

lemma wait_busy_loop_frame:
  assumes "wait_busy_loop c e st s = Some r"
  shows "bus_frame s (snd r)"
  using assms
proof (rule wait_busy_loop.raw_induct [rotated, where P = "\<lambda>c e st s r. bus_frame s (snd r)"])
  fix f c e st s r
  assume ih: "\<And>c e st s r. f c e st s = Some r \<Longrightarrow> bus_frame s (snd r)"
    and body: "(if st AND LEP_I2C_STATUS_BUSY_BIT_MASK c \<noteq> 0 \<and> flir_millis s < e
      then case read_register c (LEP_I2C_STATUS_REG c) (flir_delay 1 s) of None \<Rightarrow> None
           | Some r \<Rightarrow> (case fst r of None \<Rightarrow> Some (None, snd r)
               | Some status' \<Rightarrow> f c e status' (snd r))
      else Some (Some st, s)) = Some r"
  show "bus_frame s (snd r)"
  proof (cases "st AND LEP_I2C_STATUS_BUSY_BIT_MASK c \<noteq> 0 \<and> flir_millis s < e")
    case False
    with body show ?thesis by auto
  next
    case True
    with body obtain r0 where
      r0: "read_register c (LEP_I2C_STATUS_REG c) (flir_delay 1 s) = Some r0"
      by (auto split: option.splits)
    from read_register_frame [OF r0] have a: "bus_frame s (snd r0)"
      by simp
    show ?thesis
    proof (cases "fst r0")
      case None
      with body True r0 a show ?thesis by auto
    next
      case (Some st')
      with body True r0 have "f c e st' (snd r0) = Some r" by simp
      from a ih [OF this] show ?thesis by (rule bus_frame_trans)
    qed
  qed
qed


lemma i2c_write16_array_loop_frame:
  "i2c_write16_array_loop c n hb data k s = Some r \<Longrightarrow> bus_frame s (snd r)"
proof (induction n arbitrary: hb k s)
  case 0
  then show ?case by auto
next
  case (Suc n)
  from Suc.prems obtain r0 where r0: "tx_wait c s = Some r0"
    by (auto split: option.splits)
  have a: "bus_frame s (snd r0)"
    using r0 by (rule tx_wait_frame)
  show ?case
  proof (cases "fst r0")
    case False
    with Suc.prems r0 a show ?thesis by auto
  next
    case True
    with Suc.prems r0 obtain hb' k' b where
      "i2c_write16_array_loop c n hb' data k' (i2c_send_data (I2C1 c) b (snd r0)) = Some r"
      by (auto split: if_splits)
    from Suc.IH [OF this] have "bus_frame (snd r0) (snd r)" by simp
    with a show ?thesis by (rule bus_frame_trans)
  qed
qed

lemma write_register_frame: "write_register c a v s = Some r \<Longrightarrow> bus_frame s (snd r)"
  unfolding write_register_def Let_def i2c_write16_array_def
  by (auto split: option.splits if_splits dest!: i2c_write16_array_loop_frame)

lemma wait_busy_bit_mem:
  assumes "wait_busy_bit c timeout s = Some r"
  shows "mem (snd r) = mem s"
proof -
  from assms obtain r0 where r0: "read_register c (LEP_I2C_STATUS_REG c) s = Some r0"
    by (auto simp: wait_busy_bit_def split: option.splits)
  have a: "bus_frame s (snd r0)"
    using r0 by (rule read_register_frame)
  show ?thesis
  proof (cases "fst r0")
    case None
    with assms r0 a show ?thesis
      by (auto simp: wait_busy_bit_def bus_frame_def)
  next
    case (Some st)
    show ?thesis
    proof (cases "st AND LEP_I2C_STATUS_BUSY_BIT_MASK c = 0")
      case True
      with assms r0 Some a show ?thesis
        by (auto simp: wait_busy_bit_def bus_frame_def)
    next
      case False
      with assms r0 Some obtain r' where
        r': "wait_busy_loop c (flir_millis (snd r0) + ucast timeout) st (snd r0) = Some r'"
        by (auto simp: wait_busy_bit_def Let_def split: option.splits)
      from a wait_busy_loop_frame [OF r'] have b: "bus_frame s (snd r')"
        by (rule bus_frame_trans)
      from assms r0 Some False r'
      have "mem (snd r) = mem (snd r')"
        by (auto simp: wait_busy_bit_def Let_def printf_def split: option.splits if_splits)
      with b show ?thesis by (simp add: bus_frame_def)
    qed
  qed
qed

subsection \<open>Bytes, counters and the loop of the word-array read\<close>

lemma and_255_u8 [simp]: "(x :: u8) AND 0xFF = x"
proof -
  have "(0xFF :: u8) = - 1" by simp
  then show ?thesis by (simp only: and.right_neutral)
qed

lemma join_split_u16:
  "push_bit 8 (ucast (ucast (drop_bit 8 V) :: u8)) OR ucast (ucast V :: u8) = (V :: u16)"
  by (rule bit_word_eqI) (auto simp: bit_simps)

lemma i2c_write16_array_loop_numeral:
  "i2c_write16_array_loop c (numeral n) high_byte data k s =
     (case tx_wait c s of
        None \<Rightarrow> None
      | Some r \<Rightarrow>
          if \<not> fst r then Some (False, snd r)
          else if high_byte
          then i2c_write16_array_loop c (pred_numeral n) False data k
                 (i2c_send_data (I2C1 c) ((ucast (drop_bit 8 (data ! k)) :: u8) AND 0xFF) (snd r))
          else i2c_write16_array_loop c (pred_numeral n) True data (Suc k)
                 (i2c_send_data (I2C1 c) (ucast (data ! k AND 0xFF)) (snd r)))"
  by (simp only: numeral_eq_Suc i2c_write16_array_loop.simps)

lemma unat_u8_less: "unat (i :: u8) < 256"
  using unsigned_less [of i, where ?'a = nat] by simp

lemma uint_less_twice_u8: "(uint (i :: u8) < 2 * uint (n :: u8)) = (unat i < 2 * unat n)"
proof -
  have "uint i = int (unat i)" "uint n = int (unat n)" by simp_all
  then show ?thesis by (simp only:) linarith
qed

lemma read16_array_loop_counts:
  assumes "rxne s = (\<lambda>_ _. True)" and "unat i + k = 2 * unat n" and "unat n \<le> 127"
  shows "\<exists>s'. i2c_read16_array_loop c n i hb high p s = Some (True, s')
           \<and> rx_count s' = rx_count s + k"
  using assms
proof (induction k arbitrary: i hb high p s)
  case 0
  then have "\<not> uint i < 2 * uint n"
    by (simp add: uint_less_twice_u8)
  then show ?case
    by (subst i2c_read16_array_loop.simps) simp
next
  case (Suc k)
  from Suc.prems have lt: "uint i < 2 * uint n"
    by (simp add: uint_less_twice_u8)
  from Suc.prems have "unat i + 1 < 2 ^ 8"
    by simp
  then have i1: "unat (i + 1) = unat i + 1"
    by (simp add: unat_word_ariths)
  let ?g = "i2c_get_data (I2C1 c) s"
  have ready: "wait_for_empty_data_reg c (I2C_TIMEOUT c) s = Some (True, s)"
    using Suc.prems(1) by (simp add: wait_for_empty_data_reg_ready)
  show ?case
  proof (cases hb)
    case True
    have "\<exists>s'. i2c_read16_array_loop c n (i + 1) False (ucast (fst ?g)) p (snd ?g) = Some (True, s')
        \<and> rx_count s' = rx_count (snd ?g) + k"
      using Suc.prems i1 by (intro Suc.IH) (simp_all add: i2c_get_data_def)
    then show ?thesis
      using lt ready True
      by (subst i2c_read16_array_loop.simps) (simp add: Let_def i2c_get_data_def)
  next
    case False
    let ?s2 = "(snd ?g)\<lparr>mem := (mem (snd ?g))(p := push_bit 8 high OR ucast (fst ?g))\<rparr>"
    have "\<exists>s'. i2c_read16_array_loop c n (i + 1) True high (Suc p) ?s2 = Some (True, s')
        \<and> rx_count s' = rx_count ?s2 + k"
      using Suc.prems i1 by (intro Suc.IH) (simp_all add: i2c_get_data_def)
    then show ?thesis
      using lt ready False
      by (subst i2c_read16_array_loop.simps) (simp add: Let_def i2c_get_data_def)
  qed
qed

lemma read16_array_loop_diverges:
  assumes "128 \<le> unat n" and "rxne s = (\<lambda>_ _. True)"
  shows "i2c_read16_array_loop c n i hb high p s = None"
proof (rule ccontr)
  assume "i2c_read16_array_loop c n i hb high p s \<noteq> None"
  then obtain r where r: "i2c_read16_array_loop c n i hb high p s = Some r"
    by auto
  have "\<not> (128 \<le> unat n \<and> rxne s = (\<lambda>_ _. True))"
    using r
  proof (rule i2c_read16_array_loop.raw_induct
      [rotated, where P = "\<lambda>c n i hb high p s r. \<not> (128 \<le> unat n \<and> rxne s = (\<lambda>_ _. True))"])
    fix f :: "flir_defines \<Rightarrow> u8 \<Rightarrow> u8 \<Rightarrow> bool \<Rightarrow> u16 \<Rightarrow> nat \<Rightarrow> hw \<Rightarrow> (bool \<times> hw) option"
      and c n i hb high p s r
    assume ih: "\<And>c n i hb high p s r. f c n i hb high p s = Some r
        \<Longrightarrow> \<not> (128 \<le> unat n \<and> rxne s = (\<lambda>_ _. True))"
      and body: "(if uint i < 2 * uint n
        then case wait_for_empty_data_reg c (I2C_TIMEOUT c) s of None \<Rightarrow> None
             | Some r \<Rightarrow> if \<not> fst r then Some (False, snd r)
                 else let g = i2c_get_data (I2C1 c) (snd r)
                      in if hb then f c n (i + 1) False (ucast (fst g)) p (snd g)
                         else f c n (i + 1) True high (Suc p)
                               ((snd g)\<lparr>mem := (mem (snd g))(p := push_bit 8 high OR ucast (fst g))\<rparr>)
        else Some (True, s)) = Some r"
    show "\<not> (128 \<le> unat n \<and> rxne s = (\<lambda>_ _. True))"
    proof
      assume a: "128 \<le> unat n \<and> rxne s = (\<lambda>_ _. True)"
      from a unat_u8_less [of i] have lt: "uint i < 2 * uint n"
        by (simp add: uint_less_twice_u8)
      have ready: "wait_for_empty_data_reg c (I2C_TIMEOUT c) s = Some (True, s)"
        using a by (simp add: wait_for_empty_data_reg_ready)
      from body lt ready obtain i' hb' high' p' s' where
        call: "f c n i' hb' high' p' s' = Some r" and dev: "rxne s' = rxne s"
        by (auto simp: Let_def i2c_get_data_def split: if_splits)
      from ih [OF call] a dev show False by simp
    qed
  qed
  with assms show False by simp
qed


subsection \<open>A word written and a word read on a ready device\<close>

lemma i2c_write16_ready:
  assumes "txis s (millis_ctr s)" and "\<not> nackf s (millis_ctr s)"
  shows "i2c_write16 c addr V s
           = Some (True, s\<lparr>bus_log := bus_log s @
               [Set7bitAddress (I2C1 c) addr, SetWriteTransferDir (I2C1 c),
                SetBytesToTransfer (I2C1 c) 2, EnableAutoend (I2C1 c), SendStart (I2C1 c),
                SendData (I2C1 c) (ucast (drop_bit 8 V)), SendData (I2C1 c) (ucast V)]\<rparr>)"
  using assms
  by (simp add: i2c_write16_def i2c_prepare_def Let_def I2C_WRITE_DIR_def tx_wait_ready
      emit_def i2c_set_7bit_address_def i2c_set_write_transfer_dir_def
      i2c_set_bytes_to_transfer_def i2c_enable_autoend_def i2c_send_start_def
      i2c_send_data_def)

lemma i2c_read16_ready:
  assumes "rxne s (rx_count s) (millis_ctr s)" and "rxne s (Suc (rx_count s)) (millis_ctr s)"
  shows "i2c_read16 c addr s
           = Some (Some (push_bit 8 (ucast (rxdr s (rx_count s)))
                         OR ucast (rxdr s (Suc (rx_count s)))),
                   s\<lparr>bus_log := bus_log s @
               [Set7bitAddress (I2C1 c) addr, SetReadTransferDir (I2C1 c),
                SetBytesToTransfer (I2C1 c) 2, SendStart (I2C1 c), EnableAutoend (I2C1 c)],
                     rx_count := Suc (Suc (rx_count s))\<rparr>)"
  using assms
  by (simp add: i2c_read16_def i2c_prepare_def Let_def I2C_READ_DIR_def
      wait_for_empty_data_reg_ready emit_def i2c_set_7bit_address_def
      i2c_set_read_transfer_dir_def i2c_set_bytes_to_transfer_def i2c_enable_autoend_def
      i2c_send_start_def i2c_get_data_def)

text \<open>The waits change nothing but the counter, on any device.\<close>

lemma wait_for_ack_spin_clock:
  assumes "wait_for_ack_spin c until s = Some r"
  shows "\<exists>t. snd r = s\<lparr>millis_ctr := t\<rparr>"
  using assms
proof (rule wait_for_ack_spin.raw_induct
    [rotated, where P = "\<lambda>c until s r. \<exists>t. snd r = s\<lparr>millis_ctr := t\<rparr>"])
  fix f c until s r
  assume ih: "\<And>c until s r. f c until s = Some r \<Longrightarrow> \<exists>t. snd r = s\<lparr>millis_ctr := t\<rparr>"
    and body: "(if i2c_nack (I2C1 c) s
      then if until < millis s then Some (False, s) else f c until (sys_tick_handler s)
      else Some (True, s)) = Some r"
  from body consider "snd r = s" | "f c until (sys_tick_handler s) = Some r"
    by (auto split: if_splits)
  then show "\<exists>t. snd r = s\<lparr>millis_ctr := t\<rparr>"
  proof cases
    case 1
    then have "snd r = s\<lparr>millis_ctr := millis_ctr s\<rparr>" by simp
    then show ?thesis ..
  next
    case 2
    from ih [OF 2] show ?thesis by (auto simp: sys_tick_handler_def)
  qed
qed

lemma wait_for_empty_data_reg_spin_clock:
  assumes "wait_for_empty_data_reg_spin c until s = Some r"
  shows "\<exists>t. snd r = s\<lparr>millis_ctr := t\<rparr>"
  using assms
proof (rule wait_for_empty_data_reg_spin.raw_induct
    [rotated, where P = "\<lambda>c until s r. \<exists>t. snd r = s\<lparr>millis_ctr := t\<rparr>"])
  fix f c until s r
  assume ih: "\<And>c until s r. f c until s = Some r \<Longrightarrow> \<exists>t. snd r = s\<lparr>millis_ctr := t\<rparr>"
    and body: "(if \<not> i2c_received_data (I2C1 c) s
      then if until < millis s then Some (False, s) else f c until (sys_tick_handler s)
      else Some (True, s)) = Some r"
  from body consider "snd r = s" | "f c until (sys_tick_handler s) = Some r"
    by (auto split: if_splits)
  then show "\<exists>t. snd r = s\<lparr>millis_ctr := t\<rparr>"
  proof cases
    case 1
    then have "snd r = s\<lparr>millis_ctr := millis_ctr s\<rparr>" by simp
    then show ?thesis ..
  next
    case 2
    from ih [OF 2] show ?thesis by (auto simp: sys_tick_handler_def)
  qed
qed

lemma wait_for_empty_data_reg_clock:
  "wait_for_empty_data_reg c t s = Some r \<Longrightarrow> \<exists>t. snd r = s\<lparr>millis_ctr := t\<rparr>"
  by (simp add: wait_for_empty_data_reg_def wait_for_empty_data_reg_spin_clock)

lemma tx_wait_clock:
  assumes "tx_wait c s = Some r"
  shows "\<exists>t. snd r = s\<lparr>millis_ctr := t\<rparr>"
  using assms
proof (rule tx_wait.raw_induct [rotated, where P = "\<lambda>c s r. \<exists>t. snd r = s\<lparr>millis_ctr := t\<rparr>"])
  fix f c s r
  assume ih: "\<And>c s r. f c s = Some r \<Longrightarrow> \<exists>t. snd r = s\<lparr>millis_ctr := t\<rparr>"
    and body: "(let wait = \<not> i2c_transmit_int_status (I2C1 c) s
      in case wait_for_ack c (I2C_TIMEOUT c) s of None \<Rightarrow> None
         | Some r \<Rightarrow> if \<not> fst r then Some (False, snd r)
             else if wait then f c (sys_tick_handler (snd r)) else Some (True, snd r)) = Some r"
  from body obtain r0 where r0: "wait_for_ack c (I2C_TIMEOUT c) s = Some r0"
    by (auto simp: Let_def split: option.splits)
  then have "wait_for_ack_spin c (millis s + ucast (I2C_TIMEOUT c)) s = Some r0"
    by (simp add: wait_for_ack_def)
  from wait_for_ack_spin_clock [OF this] obtain t0 where t0: "snd r0 = s\<lparr>millis_ctr := t0\<rparr>" ..
  from body r0 consider "snd r = snd r0" | "f c (sys_tick_handler (snd r0)) = Some r"
    by (auto simp: Let_def split: if_splits)
  then show "\<exists>t. snd r = s\<lparr>millis_ctr := t\<rparr>"
  proof cases
    case 1
    with t0 show ?thesis by auto
  next
    case 2
    from ih [OF 2] t0 show ?thesis by (auto simp: sys_tick_handler_def)
  qed
qed

lemma send_separated_bytes_log:
  "send_separated_bytes c bs s = Some (True, s')
     \<Longrightarrow> bus_log s' = bus_log s @ map (SendData (I2C1 c)) bs"
proof (induction bs arbitrary: s)
  case Nil
  then show ?case by simp
next
  case (Cons b bs)
  from Cons.prems obtain r0 where r0: "tx_wait c s = Some r0"
    by (auto split: option.splits)
  from tx_wait_clock [OF r0] obtain t where t: "snd r0 = s\<lparr>millis_ctr := t\<rparr>" ..
  from Cons.prems r0
  have "send_separated_bytes c bs (i2c_send_data (I2C1 c) b (snd r0)) = Some (True, s')"
    by (auto split: if_splits)
  from Cons.IH [OF this] t show ?case
    by (simp add: i2c_send_data_def emit_def)
qed

lemma i2c_write16_log:
  assumes "i2c_write16 c addr V s = Some (True, s')"
  shows "bus_log s' = bus_log s @
           [Set7bitAddress (I2C1 c) addr, SetWriteTransferDir (I2C1 c),
            SetBytesToTransfer (I2C1 c) 2, EnableAutoend (I2C1 c), SendStart (I2C1 c),
            SendData (I2C1 c) (ucast (drop_bit 8 V)), SendData (I2C1 c) (ucast V)]"
  using send_separated_bytes_log [OF assms [unfolded i2c_write16_def Let_def]]
  by (simp add: i2c_prepare_def Let_def I2C_WRITE_DIR_def periph_defs)

lemma i2c_read16_value:
  assumes "i2c_read16 c addr s = Some (Some v, s')"
  shows "v = push_bit 8 (ucast (rxdr s (rx_count s))) OR ucast (rxdr s (Suc (rx_count s)))"
proof -
  let ?s0 = "i2c_prepare (I2C1 c) addr I2C_READ_DIR 2 s"
  have p: "rxdr ?s0 = rxdr s" "rx_count ?s0 = rx_count s"
    by (simp_all add: i2c_prepare_def Let_def periph_defs)
  from assms obtain r0 where r0: "wait_for_empty_data_reg c (I2C_TIMEOUT c) ?s0 = Some r0"
    and ok0: "fst r0"
    by (auto simp: i2c_read16_def split: option.splits if_splits)
  from wait_for_empty_data_reg_clock [OF r0] obtain t0 where
    t0: "snd r0 = ?s0\<lparr>millis_ctr := t0\<rparr>" ..
  let ?g0 = "i2c_get_data (I2C1 c) (snd r0)"
  from assms r0 ok0 obtain r1 where
    r1: "wait_for_empty_data_reg c (I2C_TIMEOUT c) (snd ?g0) = Some r1" and ok1: "fst r1"
    by (auto simp: i2c_read16_def Let_def split: option.splits if_splits)
  from wait_for_empty_data_reg_clock [OF r1] obtain t1 where
    t1: "snd r1 = (snd ?g0)\<lparr>millis_ctr := t1\<rparr>" ..
  from assms r0 ok0 r1 ok1
  have "v = push_bit 8 (ucast (fst ?g0)) OR ucast (fst (i2c_get_data (I2C1 c) (snd r1)))"
    by (simp add: i2c_read16_def Let_def)
  with t0 t1 p show ?thesis
    by (simp add: i2c_get_data_def)
qed

lemma send_separated_bytes_rx:
  "send_separated_bytes c bs s = Some r
     \<Longrightarrow> rx_count (snd r) = rx_count s \<and> rxdr (snd r) = rxdr s"
proof (induction bs arbitrary: s)
  case Nil
  then show ?case by auto
next
  case (Cons b bs)
  from Cons.prems obtain r0 where r0: "tx_wait c s = Some r0"
    by (auto split: option.splits)
  from tx_wait_clock [OF r0] obtain t where t: "snd r0 = s\<lparr>millis_ctr := t\<rparr>" ..
  show ?case
  proof (cases "fst r0")
    case False
    with Cons.prems r0 t show ?thesis by auto
  next
    case True
    with Cons.prems r0
    have "send_separated_bytes c bs (i2c_send_data (I2C1 c) b (snd r0)) = Some r"
      by simp
    from Cons.IH [OF this] t show ?thesis
      by (simp add: i2c_send_data_def emit_def)
  qed
qed

lemma i2c_write16_rx:
  assumes "i2c_write16 c addr V s = Some r"
  shows "rx_count (snd r) = rx_count s \<and> rxdr (snd r) = rxdr s"
  using send_separated_bytes_rx [OF assms [unfolded i2c_write16_def Let_def]]
  by (simp add: i2c_prepare_def Let_def periph_defs)

lemma read16_array_loop_success:
  assumes "i2c_read16_array_loop c n i hb high p s = Some r"
  shows "fst r \<longrightarrow> unat n \<le> 127 \<and> rx_count (snd r) = rx_count s + (2 * unat n - unat i)"
  using assms
proof (rule i2c_read16_array_loop.raw_induct
    [rotated, where P = "\<lambda>c n i hb high p s r.
       fst r \<longrightarrow> unat n \<le> 127 \<and> rx_count (snd r) = rx_count s + (2 * unat n - unat i)"])
  fix f :: "flir_defines \<Rightarrow> u8 \<Rightarrow> u8 \<Rightarrow> bool \<Rightarrow> u16 \<Rightarrow> nat \<Rightarrow> hw \<Rightarrow> (bool \<times> hw) option"
    and c n i hb high p s r
  assume ih: "\<And>c n i hb high p s r. f c n i hb high p s = Some r \<Longrightarrow>
      fst r \<longrightarrow> unat n \<le> 127 \<and> rx_count (snd r) = rx_count s + (2 * unat n - unat i)"
    and body: "(if uint i < 2 * uint n
      then case wait_for_empty_data_reg c (I2C_TIMEOUT c) s of None \<Rightarrow> None
           | Some r \<Rightarrow> if \<not> fst r then Some (False, snd r)
               else let g = i2c_get_data (I2C1 c) (snd r)
                    in if hb then f c n (i + 1) False (ucast (fst g)) p (snd g)
                       else f c n (i + 1) True high (Suc p)
                             ((snd g)\<lparr>mem := (mem (snd g))(p := push_bit 8 high OR ucast (fst g))\<rparr>)
      else Some (True, s)) = Some r"
  show "fst r \<longrightarrow> unat n \<le> 127 \<and> rx_count (snd r) = rx_count s + (2 * unat n - unat i)"
  proof (cases "uint i < 2 * uint n")
    case False
    with body have r: "r = (True, s)" by simp
    from False unat_u8_less [of i] have "2 * unat n \<le> unat i" "unat n \<le> 127"
      by (simp_all add: uint_less_twice_u8)
    with r show ?thesis by simp
  next
    case True
    then have lt: "unat i < 2 * unat n"
      by (simp add: uint_less_twice_u8)
    from True body obtain r0 where r0: "wait_for_empty_data_reg c (I2C_TIMEOUT c) s = Some r0"
      by (auto split: option.splits)
    from wait_for_empty_data_reg_clock [OF r0] obtain t where t: "snd r0 = s\<lparr>millis_ctr := t\<rparr>" ..
    show ?thesis
    proof (cases "fst r0")
      case False
      with body True r0 show ?thesis by auto
    next
      case ok: True
      with body True r0 obtain hb' high' p' s' where
        call: "f c n (i + 1) hb' high' p' s' = Some r" and cnt: "rx_count s' = Suc (rx_count (snd r0))"
        by (auto simp: Let_def i2c_get_data_def split: if_splits)
      show ?thesis
      proof
        assume "fst r"
        with ih [OF call] have b: "unat n \<le> 127"
          and c: "rx_count (snd r) = rx_count s' + (2 * unat n - unat (i + 1))"
          by simp_all
        from b lt have "unat i + 1 < 2 ^ 8" by simp
        then have "unat (i + 1) = unat i + 1"
          by (simp add: unat_word_ariths)
        with b c cnt t lt show "unat n \<le> 127
            \<and> rx_count (snd r) = rx_count s + (2 * unat n - unat i)"
          by simp
      qed
    qed
  qed
qed

subsection \<open>A byte that does not arrive\<close>

text \<open>
  A byte wait that times out ends the word-array read at once, whichever byte it is. The
  wait times out when the byte never arrives, one tick after the deadline. A device that
  delivers \<^term>\<open>k\<close> more bytes and then none makes the read return \<^verbatim>\<open>false\<close> after exactly
  \<^term>\<open>k\<close> bytes. The read adds nothing to the bus log after the set-up.
\<close>

lemma read16_array_loop_timeout:
  assumes "uint i < 2 * uint n"
    and "wait_for_empty_data_reg c (I2C_TIMEOUT c) s = Some (False, s1)"
  shows "i2c_read16_array_loop c n i hb high p s = Some (False, s1)"
  using assms by (subst i2c_read16_array_loop.simps) simp

lemma wait_for_empty_data_reg_spin_timeout:
  assumes "\<forall>t. \<not> rxne s (rx_count s) t"
    and "unat (millis_ctr s) + d = unat until + 1" and "unat until + 1 < 2 ^ 64"
  shows "wait_for_empty_data_reg_spin c until s = Some (False, s\<lparr>millis_ctr := until + 1\<rparr>)"
  using assms
proof (induction d arbitrary: s)
  case 0
  from 0(3) have u: "unat (until + 1) = unat until + 1"
    by (simp add: unat_word_ariths)
  with 0(2) have eq: "millis_ctr s = until + 1"
    by (simp add: word_unat_eq_iff)
  with u have "until < millis s"
    by (simp add: millis_def word_less_nat_alt)
  with 0(1) eq show ?case
    by (subst wait_for_empty_data_reg_spin.simps) (simp add: i2c_received_data_def)
next
  case (Suc d)
  from Suc.prems have le: "\<not> until < millis s"
    by (simp add: millis_def word_less_nat_alt)
  from Suc.prems have "unat (millis_ctr s) + 1 < 2 ^ 64"
    by simp
  then have t: "unat (millis_ctr (sys_tick_handler s)) = unat (millis_ctr s) + 1"
    by (simp add: sys_tick_handler_def unat_word_ariths)
  have "wait_for_empty_data_reg_spin c until (sys_tick_handler s)
      = Some (False, (sys_tick_handler s)\<lparr>millis_ctr := until + 1\<rparr>)"
    using Suc.prems t by (intro Suc.IH) (simp_all add: sys_tick_handler_def)
  with Suc.prems(1) le show ?case
    by (subst wait_for_empty_data_reg_spin.simps)
      (simp add: i2c_received_data_def sys_tick_handler_def)
qed

lemma unat_ucast_u32_u64: "unat (ucast (x :: u32) :: u64) = unat x"
proof -
  have "unat x < 2 ^ 32" using unsigned_less [of x, where ?'a = nat] by simp
  then have "unat x < 2 ^ 64" by simp
  then show ?thesis by (simp add: unsigned_ucast_eq take_bit_eq_mod)
qed

lemma wait_for_empty_data_reg_timeout:
  assumes "\<forall>t. \<not> rxne s (rx_count s) t"
    and "unat (millis_ctr s) + unat timeout + 1 < 2 ^ 64"
  shows "wait_for_empty_data_reg c timeout s
           = Some (False, s\<lparr>millis_ctr := millis_ctr s + ucast timeout + 1\<rparr>)"
proof -
  let ?until = "millis_ctr s + ucast timeout"
  from assms(2) have u: "unat ?until = unat (millis_ctr s) + unat timeout"
    by (simp add: unat_word_ariths unat_ucast_u32_u64)
  have "wait_for_empty_data_reg_spin c ?until s = Some (False, s\<lparr>millis_ctr := ?until + 1\<rparr>)"
    using assms u by (intro wait_for_empty_data_reg_spin_timeout [where d = "unat timeout + 1"]) simp_all
  then show ?thesis
    by (simp add: wait_for_empty_data_reg_def millis_def)
qed

lemma read16_array_loop_stops:
  assumes "rxne s = (\<lambda>j t. j < rx_count s + k)"
    and "128 \<le> unat n \<or> unat i + k < 2 * unat n"
    and "unat (millis_ctr s) + unat (I2C_TIMEOUT c) + 1 < 2 ^ 64"
  shows "\<exists>s'. i2c_read16_array_loop c n i hb high p s = Some (False, s')
           \<and> rx_count s' = rx_count s + k
           \<and> millis_ctr s' = millis_ctr s + ucast (I2C_TIMEOUT c) + 1"
  using assms
proof (induction k arbitrary: i hb high p s)
  case 0
  from 0(2) unat_u8_less [of i] have lt: "uint i < 2 * uint n"
    by (auto simp add: uint_less_twice_u8)
  from 0(1) have "\<forall>t. \<not> rxne s (rx_count s) t"
    by simp
  from wait_for_empty_data_reg_timeout [OF this 0(3)] lt show ?case
    by (simp add: read16_array_loop_timeout)
next
  case (Suc k)
  from Suc.prems(2) unat_u8_less [of i] have lt: "uint i < 2 * uint n"
    by (auto simp add: uint_less_twice_u8)
  from Suc.prems(1) have "rxne s (rx_count s) (millis_ctr s)"
    by simp
  then have ready: "wait_for_empty_data_reg c (I2C_TIMEOUT c) s = Some (True, s)"
    by (rule wait_for_empty_data_reg_ready)
  let ?g = "i2c_get_data (I2C1 c) s"
  have bound: "128 \<le> unat n \<or> unat (i + 1) + k < 2 * unat n"
  proof (cases "128 \<le> unat n")
    case True
    then show ?thesis ..
  next
    case False
    with Suc.prems(2) have a: "unat i + Suc k < 2 * unat n" and b: "unat i + 1 < 2 ^ 8"
      by simp_all
    from b have "unat (i + 1) = unat i + 1"
      by (simp add: unat_word_ariths)
    with a show ?thesis by simp
  qed
  have step: "\<exists>s'. i2c_read16_array_loop c n (i + 1) hb' high' p' s2 = Some (False, s')
      \<and> rx_count s' = rx_count s2 + k
      \<and> millis_ctr s' = millis_ctr s2 + ucast (I2C_TIMEOUT c) + 1"
    if "rxne s2 = rxne s" "rx_count s2 = Suc (rx_count s)" "millis_ctr s2 = millis_ctr s"
    for hb' high' p' s2
    using that Suc.prems(1,3) bound by (intro Suc.IH) simp_all
  show ?case
  proof (cases hb)
    case True
    from step [of "snd ?g" False "ucast (fst ?g)" p] lt ready True show ?thesis
      by (subst i2c_read16_array_loop.simps) (simp add: Let_def i2c_get_data_def)
  next
    case False
    from step [of "(snd ?g)\<lparr>mem := (mem (snd ?g))(p := push_bit 8 high OR ucast (fst ?g))\<rparr>"
        True high "Suc p"] lt ready False
    show ?thesis
      by (subst i2c_read16_array_loop.simps) (simp add: Let_def i2c_get_data_def)
  qed
qed

lemma read16_array_loop_log:
  assumes "i2c_read16_array_loop c n i hb high p s = Some r"
  shows "bus_log (snd r) = bus_log s"
  using assms
proof (rule i2c_read16_array_loop.raw_induct
    [rotated, where P = "\<lambda>c n i hb high p s r. bus_log (snd r) = bus_log s"])
  fix f :: "flir_defines \<Rightarrow> u8 \<Rightarrow> u8 \<Rightarrow> bool \<Rightarrow> u16 \<Rightarrow> nat \<Rightarrow> hw \<Rightarrow> (bool \<times> hw) option"
    and c n i hb high p s r
  assume ih: "\<And>c n i hb high p s r. f c n i hb high p s = Some r \<Longrightarrow> bus_log (snd r) = bus_log s"
    and body: "(if uint i < 2 * uint n
      then case wait_for_empty_data_reg c (I2C_TIMEOUT c) s of None \<Rightarrow> None
           | Some r \<Rightarrow> if \<not> fst r then Some (False, snd r)
               else let g = i2c_get_data (I2C1 c) (snd r)
                    in if hb then f c n (i + 1) False (ucast (fst g)) p (snd g)
                       else f c n (i + 1) True high (Suc p)
                             ((snd g)\<lparr>mem := (mem (snd g))(p := push_bit 8 high OR ucast (fst g))\<rparr>)
      else Some (True, s)) = Some r"
  show "bus_log (snd r) = bus_log s"
  proof (cases "uint i < 2 * uint n")
    case False
    with body show ?thesis by auto
  next
    case True
    with body obtain r0 where r0: "wait_for_empty_data_reg c (I2C_TIMEOUT c) s = Some r0"
      by (auto split: option.splits)
    from wait_for_empty_data_reg_clock [OF r0] obtain t where t: "snd r0 = s\<lparr>millis_ctr := t\<rparr>" ..
    show ?thesis
    proof (cases "fst r0")
      case False
      with body True r0 t show ?thesis by auto
    next
      case ok: True
      with body True r0 obtain i' hb' high' p' s' where
        call: "f c n i' hb' high' p' s' = Some r" and l: "bus_log s' = bus_log (snd r0)"
        by (auto simp: Let_def i2c_get_data_def split: if_splits)
      from ih [OF call] l t show ?thesis by simp
    qed
  qed
qed

subsection \<open>Evaluating the samples\<close>

lemmas sample_defs = lepton_def board_def always_ready_def never_ready_def
  ready_at_zero_only_def busy_bytes_def err3_bytes_def beef_bytes_def
  length5_bytes_def status_read_log_def command_write_log_def
  length_pointer_log_def word_read_log_def

lemmas eval_defs = wait_busy_bit_def read_register_def write_register_def i2c_write16_def
  i2c_read16_def i2c_write16_array_def i2c_prepare_def periph_defs Let_def I2C_WRITE_DIR_def
  I2C_READ_DIR_def error_code_of_def wait_for_ack_ready wait_for_empty_data_reg_ready
  tx_wait_ready flir_millis_def flir_delay_def delay_def get_last_flir_result_def
  i2c_write16_array_loop_numeral

lemmas spin_simps = wait_busy_loop.simps delay_spin.simps wait_for_empty_data_reg_def
  wait_for_empty_data_reg_spin.simps

text \<open>
  The receive flag is per byte: here the first byte of a word read is there at once and
  the second never comes, and the read returns \<^verbatim>\<open>false\<close> from its second wait.
\<close>

lemma i2c_read16_second_byte_timeout:
  "i2c_read16 lepton 0x2A ((board 0 never_ready beef_bytes)\<lparr>rxne := (\<lambda>k t. k = 0)\<rparr>)
     = Some (None, (board 0 never_ready beef_bytes)
          \<lparr>rxne := (\<lambda>k t. k = 0), millis_ctr := 4, bus_log := word_read_log, rx_count := 1\<rparr>)"
  by (simp add: eval_defs spin_simps sample_defs)

subsection \<open>Steps of the GET command\<close>

lemma read_data_register_after_length:
  assumes w: "i2c_write16 c (LEP_I2C_DEVICE_ADDRESS c) (LEP_I2C_DATA_LENGTH_REG c) s = Some (True, s1)"
    and r: "i2c_read16 c (LEP_I2C_DEVICE_ADDRESS c) s1 = Some (Some num_bytes, s2)"
  shows "read_data_register c read_words max_length s =
           (if num_bytes = 0 \<or> uint num_bytes \<noteq> 2 * uint max_length then Some (False, s2)
            else i2c_read16_array c (LEP_I2C_DEVICE_ADDRESS c) read_words max_length s2)"
  using w r by (auto simp: read_data_register_def split: option.splits)

lemma get_flir_command_after_waits:
  assumes "wait_busy_bit c (FLIR_BUSY_TIMEOUT c) s = Some (True, sa)"
    and "write_register c (LEP_I2C_COMMAND_REG c) cmd_code sa = Some (True, sb)"
    and "wait_busy_bit c (FLIR_BUSY_TIMEOUT c) sb = Some (True, sc)"
  shows "get_flir_command c cmd_code data_words num_words s
           = read_data_register c data_words num_words sc"
  using assms by (auto simp: get_flir_command_def split: option.splits)

lemmas read_array_eval = i2c_read16_array_def i2c_read16_array_loop.simps

subsection \<open>The busy wait on a device that stays busy\<close>

lemma wait_busy_loop_read_failure:
  assumes "st AND LEP_I2C_STATUS_BUSY_BIT_MASK c \<noteq> 0" and "flir_millis sa < e"
    and "read_register c (LEP_I2C_STATUS_REG c) (flir_delay 1 sa) = Some (None, sb)"
  shows "wait_busy_loop c e st sa = Some (None, sb)"
  using assms by (subst wait_busy_loop.simps) simp

lemma read_register_instant:
  assumes "instant s"
  shows "\<exists>s'. read_register c reg s = Some (Some (status_at s (rx_count s)), s')
           \<and> millis_ctr s' = millis_ctr s \<and> rx_count s' = rx_count s + 2
           \<and> bus_frame s s'"
  using assms
  by (simp add: read_register_def instant_def i2c_write16_ready i2c_read16_ready status_at_def
      bus_frame_def)

lemma delay_one:
  assumes "unat (millis_ctr s) + 1 < 2 ^ 64"
  shows "delay 1 s = sys_tick_handler s"
proof -
  from assms have u: "unat (millis_ctr s + 1) = unat (millis_ctr s) + 1"
    by (simp add: unat_word_ariths)
  then have lt: "millis_ctr s < millis_ctr s + 1"
    by (simp add: word_less_nat_alt)
  then have "delay_spin (millis_ctr s + 1) s = delay_spin (millis_ctr s + 1) (sys_tick_handler s)"
    by (subst delay_spin.simps) (simp add: millis_def)
  also have "\<dots> = sys_tick_handler s"
    by (subst delay_spin.simps) (simp add: millis_def sys_tick_handler_def)
  finally show ?thesis
    by (simp add: delay_def millis_def)
qed

lemma unat_u16_less: "unat (x :: u16) < 65536"
  using unsigned_less [of x, where ?'a = nat] by simp

lemma unat_u64_less: "unat (x :: u64) < 2 ^ 64"
  using unsigned_less [of x, where ?'a = nat] by simp

lemma unat_ucast_u16_u32: "unat (ucast (x :: u16) :: u32) = unat x"
proof -
  have "unat x < 2 ^ 32" using unat_u16_less [of x] by simp
  then show ?thesis by (simp add: unsigned_ucast_eq take_bit_eq_mod)
qed

lemma unat_flir_millis: "unat (flir_millis s) = unat (millis_ctr s) mod 2 ^ 32"
  by (simp add: flir_millis_def millis_def unsigned_ucast_eq take_bit_eq_mod)

lemma no_wrap_64:
  assumes "m mod 2 ^ 32 + 1 < (2 :: nat) ^ 32" and "m < 2 ^ 64"
  shows "m + 1 < 2 ^ 64"
proof (rule ccontr)
  assume "\<not> m + 1 < 2 ^ 64"
  with assms(2) have "m = 18446744073709551615" by simp
  with assms(1) show False by simp
qed

lemma flir_millis_tick:
  assumes "unat (flir_millis s) + 1 < 2 ^ 32"
  shows "unat (millis_ctr s) + 1 < 2 ^ 64"
    and "unat (millis_ctr (sys_tick_handler s)) = unat (millis_ctr s) + 1"
    and "unat (flir_millis (sys_tick_handler s)) = unat (flir_millis s) + 1"
proof -
  from assms have a: "unat (millis_ctr s) mod 2 ^ 32 + 1 < 2 ^ 32"
    by (simp add: unat_flir_millis)
  from no_wrap_64 [OF a unat_u64_less] show b: "unat (millis_ctr s) + 1 < 2 ^ 64" .
  then show c: "unat (millis_ctr (sys_tick_handler s)) = unat (millis_ctr s) + 1"
    by (simp add: sys_tick_handler_def unat_word_ariths)
  have "unat (flir_millis (sys_tick_handler s)) = (unat (millis_ctr s) + 1) mod 2 ^ 32"
    by (simp only: unat_flir_millis c)
  also have "\<dots> = unat (millis_ctr s) mod 2 ^ 32 + 1"
    using a by (metis mod_add_left_eq mod_less)
  finally show "unat (flir_millis (sys_tick_handler s)) = unat (flir_millis s) + 1"
    by (simp add: unat_flir_millis)
qed

lemma wait_busy_loop_stuck:
  assumes "instant s"
    and "\<forall>j. status_at s (rx_count s + 2 * j) AND LEP_I2C_STATUS_BUSY_BIT_MASK c \<noteq> 0"
    and "st AND LEP_I2C_STATUS_BUSY_BIT_MASK c \<noteq> 0"
    and "unat (flir_millis s) + k = unat e"
  shows "\<exists>st' s'. wait_busy_loop c e st s = Some (Some st', s')
           \<and> st' AND LEP_I2C_STATUS_BUSY_BIT_MASK c \<noteq> 0
           \<and> unat (millis_ctr s') = unat (millis_ctr s) + k \<and> bus_frame s s'"
  using assms
proof (induction k arbitrary: st s)
  case 0
  then have "\<not> flir_millis s < e"
    by (simp add: word_less_nat_alt)
  with 0 show ?case
    by (subst wait_busy_loop.simps) simp
next
  case (Suc k)
  have "unat e < 2 ^ 32"
    using unsigned_less [of e, where ?'a = nat] by simp
  with Suc.prems have room: "unat (flir_millis s) + 1 < 2 ^ 32"
    by simp
  from Suc.prems have lt: "flir_millis s < e"
    by (simp add: word_less_nat_alt)
  let ?t = "sys_tick_handler s"
  have d: "flir_delay 1 s = ?t"
    using flir_millis_tick(1) [OF room] by (simp add: flir_delay_def delay_one)
  have it: "instant ?t" and rt: "rx_count ?t = rx_count s" and xt: "rxdr ?t = rxdr s"
    using Suc.prems(1) by (simp_all add: instant_def sys_tick_handler_def)
  from read_register_instant [OF it, of c "LEP_I2C_STATUS_REG c"] obtain s1 where
    r: "read_register c (LEP_I2C_STATUS_REG c) ?t = Some (Some (status_at ?t (rx_count ?t)), s1)"
    and m1: "millis_ctr s1 = millis_ctr ?t" and c1: "rx_count s1 = rx_count ?t + 2"
    and f1: "bus_frame ?t s1"
    by blast
  have st1: "status_at ?t (rx_count ?t) = status_at s (rx_count s + 2 * 0)"
    by (simp add: status_at_def rt xt)
  have busy1: "status_at ?t (rx_count ?t) AND LEP_I2C_STATUS_BUSY_BIT_MASK c \<noteq> 0"
    unfolding st1 using Suc.prems(2) by blast
  have i1: "instant s1"
    using it f1 by (simp add: instant_def bus_frame_def)
  have x1: "rxdr s1 = rxdr s"
    using f1 xt by (simp add: bus_frame_def)
  have all1: "\<forall>j. status_at s1 (rx_count s1 + 2 * j) AND LEP_I2C_STATUS_BUSY_BIT_MASK c \<noteq> 0"
  proof
    fix j
    have "status_at s1 (rx_count s1 + 2 * j) = status_at s (rx_count s + 2 * Suc j)"
      by (simp add: status_at_def x1 c1 rt)
    with Suc.prems(2) show "status_at s1 (rx_count s1 + 2 * j)
        AND LEP_I2C_STATUS_BUSY_BIT_MASK c \<noteq> 0"
      by metis
  qed
  have fm1: "flir_millis s1 = flir_millis ?t"
    by (simp add: flir_millis_def millis_def m1)
  have k1: "unat (flir_millis s1) + k = unat e"
    using Suc.prems(4) flir_millis_tick(3) [OF room] by (simp add: fm1)
  from Suc.IH [OF i1 all1 busy1 k1] obtain st' s' where
    l: "wait_busy_loop c e (status_at ?t (rx_count ?t)) s1 = Some (Some st', s')"
    and b': "st' AND LEP_I2C_STATUS_BUSY_BIT_MASK c \<noteq> 0"
    and m': "unat (millis_ctr s') = unat (millis_ctr s1) + k" and f': "bus_frame s1 s'"
    by blast
  have "wait_busy_loop c e st s = Some (Some st', s')"
    using Suc.prems(3) lt d r l by (subst wait_busy_loop.simps) simp
  moreover have "unat (millis_ctr s') = unat (millis_ctr s) + Suc k"
    using m' m1 flir_millis_tick(2) [OF room] by simp
  moreover have "bus_frame s s'"
    using f1 f' by (auto intro: bus_frame_trans [where ?s1.0 = s1])
  ultimately show ?case
    using b' by blast
qed

lemma wait_busy_bit_stuck_busy:
  assumes "instant s"
    and "\<forall>j. status_at s (rx_count s + 2 * j) AND LEP_I2C_STATUS_BUSY_BIT_MASK c \<noteq> 0"
    and "unat (flir_millis s) + unat timeout < 2 ^ 32"
  shows "\<exists>s'. wait_busy_bit c timeout s = Some (False, s')
           \<and> unat (millis_ctr s') = unat (millis_ctr s) + unat timeout
           \<and> last_flir_error s' = last_flir_error s"
proof -
  from read_register_instant [OF assms(1), of c "LEP_I2C_STATUS_REG c"] obtain s1 where
    r: "read_register c (LEP_I2C_STATUS_REG c) s = Some (Some (status_at s (rx_count s)), s1)"
    and m1: "millis_ctr s1 = millis_ctr s" and c1: "rx_count s1 = rx_count s + 2"
    and f1: "bus_frame s s1"
    by blast
  let ?st = "status_at s (rx_count s)"
  have busy: "?st AND LEP_I2C_STATUS_BUSY_BIT_MASK c \<noteq> 0"
    using assms(2) [rule_format, of 0] by simp
  have i1: "instant s1"
    using assms(1) f1 by (simp add: instant_def bus_frame_def)
  have x1: "rxdr s1 = rxdr s"
    using f1 by (simp add: bus_frame_def)
  have all1: "\<forall>j. status_at s1 (rx_count s1 + 2 * j) AND LEP_I2C_STATUS_BUSY_BIT_MASK c \<noteq> 0"
  proof
    fix j
    have "status_at s1 (rx_count s1 + 2 * j) = status_at s (rx_count s + 2 * Suc j)"
      by (simp add: status_at_def x1 c1)
    with assms(2) show "status_at s1 (rx_count s1 + 2 * j)
        AND LEP_I2C_STATUS_BUSY_BIT_MASK c \<noteq> 0"
      by metis
  qed
  have fm1: "flir_millis s1 = flir_millis s"
    by (simp add: flir_millis_def millis_def m1)
  let ?e = "flir_millis s1 + ucast timeout"
  have e: "unat (flir_millis s1) + unat timeout = unat ?e"
    using assms(3) by (simp add: fm1 unat_word_ariths unat_ucast_u16_u32)
  from wait_busy_loop_stuck [OF i1 all1 busy e] obtain st' s2 where
    l: "wait_busy_loop c ?e ?st s1 = Some (Some st', s2)"
    and b': "st' AND LEP_I2C_STATUS_BUSY_BIT_MASK c \<noteq> 0"
    and m2: "unat (millis_ctr s2) = unat (millis_ctr s1) + unat timeout" and f2: "bus_frame s1 s2"
    by blast
  have "wait_busy_bit c timeout s = Some (False, printf (''Fail 3'' @ [CHR 0x0A]) s2)"
    using r busy l b' by (simp add: wait_busy_bit_def)
  moreover have "unat (millis_ctr (printf (''Fail 3'' @ [CHR 0x0A]) s2))
      = unat (millis_ctr s) + unat timeout"
    using m2 m1 by (simp add: printf_def)
  moreover have "last_flir_error (printf (''Fail 3'' @ [CHR 0x0A]) s2) = last_flir_error s"
    using f1 f2 by (simp add: printf_def bus_frame_def)
  ultimately show ?thesis
    by blast
qed


subsection \<open>What a word-array write puts on the bus\<close>

text \<open>
  Whatever the device does, a word-array write that returns has put on the bus its set-up
  and then a beginning of the bytes of the array, all of them when it returns \<^verbatim>\<open>true\<close>. On
  a device whose transmitter is ready and that acknowledges, it returns \<^verbatim>\<open>true\<close> and
  changes nothing but the log. The busy wait succeeds at its first read when the device
  answers at once and the status it reads is not busy.
\<close>

lemma word_bytes_simps [simp]:
  "word_bytes [] = []"
  "word_bytes (w # ws) = ucast (drop_bit 8 w) # ucast w # word_bytes ws"
  by (simp_all add: word_bytes_def)

lemma length_word_bytes [simp]: "length (word_bytes ws) = 2 * length ws"
  by (induction ws) simp_all








section \<open>The order of start and auto-end in a transaction set-up\<close>

text \<open>
  C2. \<^verbatim>\<open>i2c_prepare\<close> appends five calls to the log of the peripheral. In a write
  transaction (\<open>dir\<close> not zero) the auto-end is enabled and then the start condition is
  sent; in a read transaction (\<open>dir\<close> zero) the start condition is sent and the auto-end is
  enabled after it. Address, direction and byte count come first in both.
\<close>

theorem i2c_prepare_order:
  "bus_log (i2c_prepare i2c addr dir n s) = bus_log s @
     (if dir \<noteq> 0
      then [Set7bitAddress i2c addr, SetWriteTransferDir i2c, SetBytesToTransfer i2c n,
            EnableAutoend i2c, SendStart i2c]
      else [Set7bitAddress i2c addr, SetReadTransferDir i2c, SetBytesToTransfer i2c n,
            SendStart i2c, EnableAutoend i2c])"
  by (simp add: i2c_prepare_def periph_defs)

section \<open>The command code\<close>

text \<open>
  C8. \<^verbatim>\<open>command_code\<close> is a function of its two arguments alone (it takes no state). When
  the type mask shares no bit with the module-id and command-id masks, as the interface
  description has it, the type bits of the result are the type bits of \<open>cmd_type\<close>, and
  the module-id and command-id bits of the result are those of \<open>cmd_id\<close>.
\<close>

theorem command_code_fields:
  assumes "LEP_I2C_COMMAND_TYPE_BIT_MASK c AND
             (LEP_I2C_COMMAND_MODULE_ID_BIT_MASK c OR LEP_I2C_COMMAND_ID_BIT_MASK c) = 0"
  shows "command_code c cmd_id cmd_type AND LEP_I2C_COMMAND_TYPE_BIT_MASK c
           = cmd_type AND LEP_I2C_COMMAND_TYPE_BIT_MASK c
       \<and> command_code c cmd_id cmd_type AND
           (LEP_I2C_COMMAND_MODULE_ID_BIT_MASK c OR LEP_I2C_COMMAND_ID_BIT_MASK c)
           = cmd_id AND (LEP_I2C_COMMAND_MODULE_ID_BIT_MASK c OR LEP_I2C_COMMAND_ID_BIT_MASK c)"
proof -
  have d: "\<not> (bit (LEP_I2C_COMMAND_TYPE_BIT_MASK c) n \<and>
      (bit (LEP_I2C_COMMAND_MODULE_ID_BIT_MASK c) n \<or> bit (LEP_I2C_COMMAND_ID_BIT_MASK c) n))" for n
    using arg_cong [OF assms, of "\<lambda>w. bit w n"] by (simp add: bit_and_iff bit_or_iff)
  show ?thesis
    unfolding command_code_def
    by (intro conjI bit_word_eqI) (use d in \<open>auto simp add: bit_and_iff bit_or_iff\<close>)
qed

theorem command_code_fields_witness:
  "command_code lepton 0x0304 0x0001 AND LEP_I2C_COMMAND_TYPE_BIT_MASK lepton = 0x0001
   \<and> command_code lepton 0x0304 0x0001 AND
       (LEP_I2C_COMMAND_MODULE_ID_BIT_MASK lepton OR LEP_I2C_COMMAND_ID_BIT_MASK lepton) = 0x0304"
  using command_code_fields [of lepton "0x0304" "0x0001"] by (simp add: lepton_def)

section \<open>The last-error slot\<close>

text \<open>
  C10. When \<^verbatim>\<open>wait_busy_bit\<close> returns \<^verbatim>\<open>false\<close>, whether the first read of the status
  register failed, a read inside the loop failed, or the busy bit was still set at the
  deadline, the last-error slot holds what it held before the call, and
  \<^verbatim>\<open>get_last_flir_result\<close> returns the same code as before (the initial value if no wait
  has succeeded yet).
\<close>

theorem wait_busy_bit_failure_keeps_last_error:
  assumes "wait_busy_bit c timeout s = Some (False, s')"
  shows "get_last_flir_result s' = get_last_flir_result s"
proof -
  from assms obtain r where r: "read_register c (LEP_I2C_STATUS_REG c) s = Some r"
    by (auto simp: wait_busy_bit_def split: option.splits)
  have a: "bus_frame s (snd r)"
    using r by (rule read_register_frame)
  show ?thesis
  proof (cases "fst r")
    case None
    with assms r a show ?thesis
      by (auto simp: wait_busy_bit_def get_last_flir_result_def bus_frame_def)
  next
    case (Some st)
    with assms r have busy: "st AND LEP_I2C_STATUS_BUSY_BIT_MASK c \<noteq> 0"
      by (auto simp: wait_busy_bit_def split: if_splits)
    with assms r Some obtain r' where
      r': "wait_busy_loop c (flir_millis (snd r) + ucast timeout) st (snd r) = Some r'"
      by (auto simp: wait_busy_bit_def Let_def split: option.splits)
    from a wait_busy_loop_frame [OF r'] have b: "bus_frame s (snd r')"
      by (rule bus_frame_trans)
    from assms r Some busy r'
    have "s' = snd r' \<or> s' = printf (''Fail 3'' @ [CHR 0x0A]) (snd r')"
      by (auto simp: wait_busy_bit_def Let_def split: option.splits if_splits)
    with b show ?thesis
      by (auto simp: get_last_flir_result_def bus_frame_def printf_def)
  qed
qed


theorem wait_busy_bit_failure_keeps_last_error_witness:
  "wait_busy_bit lepton 2 (board 0 ready_at_zero_only busy_bytes)
     = Some (False, (board 0 ready_at_zero_only busy_bytes)
         \<lparr>millis_ctr := 5, bus_log := status_read_log @ status_read_log, rx_count := 2\<rparr>)
   \<and> get_last_flir_result
       ((board 0 ready_at_zero_only busy_bytes)
          \<lparr>millis_ctr := 5, bus_log := status_read_log @ status_read_log, rx_count := 2\<rparr>)
     = get_last_flir_result (board 0 ready_at_zero_only busy_bytes)"
proof -
  have run: "wait_busy_bit lepton 2 (board 0 ready_at_zero_only busy_bytes)
      = Some (False, (board 0 ready_at_zero_only busy_bytes)
          \<lparr>millis_ctr := 5, bus_log := status_read_log @ status_read_log, rx_count := 2\<rparr>)"
    by (simp add: eval_defs spin_simps sample_defs)
  from run wait_busy_bit_failure_keeps_last_error [OF run] show ?thesis
    by (rule conjI)
qed

text \<open>
  C4. When the first read of the status register succeeds and shows the busy bit clear,
  \<^verbatim>\<open>wait_busy_bit\<close> returns \<^verbatim>\<open>true\<close> in the state that read left, with nothing changed but
  the last-error slot: the counter has not moved and nothing more went over the bus. The
  slot holds the error-code field of that status word, masked, shifted and cut to eight
  bits, whatever its value, and \<^verbatim>\<open>get_last_flir_result\<close> returns it.
\<close>

theorem wait_busy_bit_first_read_clear:
  assumes "read_register c (LEP_I2C_STATUS_REG c) s = Some (Some status, s1)"
    and "status AND LEP_I2C_STATUS_BUSY_BIT_MASK c = 0"
  shows "wait_busy_bit c timeout s
           = Some (True, s1\<lparr>last_flir_error :=
                ucast (drop_bit (LEP_I2C_STATUS_ERROR_CODE_BIT_SHIFT c)
                         (status AND LEP_I2C_STATUS_ERROR_CODE_BIT_MASK c))\<rparr>)
       \<and> get_last_flir_result (s1\<lparr>last_flir_error :=
                ucast (drop_bit (LEP_I2C_STATUS_ERROR_CODE_BIT_SHIFT c)
                         (status AND LEP_I2C_STATUS_ERROR_CODE_BIT_MASK c))\<rparr>)
           = ucast (drop_bit (LEP_I2C_STATUS_ERROR_CODE_BIT_SHIFT c)
                         (status AND LEP_I2C_STATUS_ERROR_CODE_BIT_MASK c))"
  using assms by (simp add: wait_busy_bit_def error_code_of_def get_last_flir_result_def)

theorem wait_busy_bit_first_read_clear_witness:
  "wait_busy_bit lepton 50 (board 0 always_ready err3_bytes)
     = Some (True, (board 0 always_ready err3_bytes)
               \<lparr>bus_log := status_read_log, rx_count := 2, last_flir_error := 3\<rparr>)
   \<and> get_last_flir_result ((board 0 always_ready err3_bytes)
               \<lparr>bus_log := status_read_log, rx_count := 2, last_flir_error := 3\<rparr>) = 3"
proof -
  have rd: "read_register lepton (LEP_I2C_STATUS_REG lepton) (board 0 always_ready err3_bytes)
      = Some (Some 0x0300, (board 0 always_ready err3_bytes)
                \<lparr>bus_log := status_read_log, rx_count := 2\<rparr>)"
    by (simp add: eval_defs sample_defs)
  have clear: "(0x0300 :: u16) AND LEP_I2C_STATUS_BUSY_BIT_MASK lepton = 0"
    by (simp add: lepton_def)
  from wait_busy_bit_first_read_clear [OF rd clear, of 50] show ?thesis
    by (simp add: lepton_def)
qed


section \<open>Byte order of a word on the bus\<close>

text \<open>
  C5. Whenever \<^verbatim>\<open>i2c_write16\<close> returns \<^verbatim>\<open>true\<close> it has set up a two-byte write and sent
  the high byte of the word and then its low byte, and nothing else. Whenever
  \<^verbatim>\<open>i2c_read16\<close> returns \<^verbatim>\<open>true\<close> the word it stores is the first received byte shifted
  left by eight, or-ed with the second. So when the two bytes the device hands back are the
  two bytes of \<open>V\<close> in the order they were sent, a read that follows the write of \<open>V\<close>
  stores \<open>V\<close>. On a device that is ready both calls do return \<^verbatim>\<open>true\<close>.
\<close>

theorem i2c_word_roundtrip:
  "(i2c_write16 c addr V s = Some (True, s1)
      \<longrightarrow> bus_log s1 = bus_log s @
            [Set7bitAddress (I2C1 c) addr, SetWriteTransferDir (I2C1 c),
             SetBytesToTransfer (I2C1 c) 2, EnableAutoend (I2C1 c), SendStart (I2C1 c),
             SendData (I2C1 c) (ucast (drop_bit 8 V)), SendData (I2C1 c) (ucast V)])
   \<and> (i2c_read16 c addr s = Some (Some v, s2)
      \<longrightarrow> v = push_bit 8 (ucast (rxdr s (rx_count s))) OR ucast (rxdr s (Suc (rx_count s))))
   \<and> (i2c_write16 c addr V s = Some (True, s1) \<and> i2c_read16 c addr s1 = Some (Some w, s3)
        \<and> rxdr s (rx_count s) = ucast (drop_bit 8 V) \<and> rxdr s (Suc (rx_count s)) = ucast V
      \<longrightarrow> w = V)
   \<and> (txis s (millis_ctr s) \<and> \<not> nackf s (millis_ctr s)
        \<and> rxne s (rx_count s) (millis_ctr s) \<and> rxne s (Suc (rx_count s)) (millis_ctr s)
      \<longrightarrow> (\<exists>t1 t2 u. i2c_write16 c addr V s = Some (True, t1)
                \<and> i2c_read16 c addr t1 = Some (Some u, t2)))"
proof (intro conjI impI)
  assume "i2c_write16 c addr V s = Some (True, s1)"
  then show "bus_log s1 = bus_log s @
            [Set7bitAddress (I2C1 c) addr, SetWriteTransferDir (I2C1 c),
             SetBytesToTransfer (I2C1 c) 2, EnableAutoend (I2C1 c), SendStart (I2C1 c),
             SendData (I2C1 c) (ucast (drop_bit 8 V)), SendData (I2C1 c) (ucast V)]"
    by (rule i2c_write16_log)
next
  assume "i2c_read16 c addr s = Some (Some v, s2)"
  then show "v = push_bit 8 (ucast (rxdr s (rx_count s))) OR ucast (rxdr s (Suc (rx_count s)))"
    by (rule i2c_read16_value)
next
  assume a: "i2c_write16 c addr V s = Some (True, s1) \<and> i2c_read16 c addr s1 = Some (Some w, s3)
        \<and> rxdr s (rx_count s) = ucast (drop_bit 8 V) \<and> rxdr s (Suc (rx_count s)) = ucast V"
  then have same: "rx_count s1 = rx_count s" "rxdr s1 = rxdr s"
    using i2c_write16_rx [of c addr V s "(True, s1)"] by simp_all
  from a have "i2c_read16 c addr s1 = Some (Some w, s3)"
    by simp
  then have "w = push_bit 8 (ucast (rxdr s1 (rx_count s1))) OR ucast (rxdr s1 (Suc (rx_count s1)))"
    by (rule i2c_read16_value)
  with a same show "w = V"
    by (simp add: join_split_u16)
next
  assume a: "txis s (millis_ctr s) \<and> \<not> nackf s (millis_ctr s)
      \<and> rxne s (rx_count s) (millis_ctr s) \<and> rxne s (Suc (rx_count s)) (millis_ctr s)"
  let ?t1 = "s\<lparr>bus_log := bus_log s @
               [Set7bitAddress (I2C1 c) addr, SetWriteTransferDir (I2C1 c),
                SetBytesToTransfer (I2C1 c) 2, EnableAutoend (I2C1 c), SendStart (I2C1 c),
                SendData (I2C1 c) (ucast (drop_bit 8 V)), SendData (I2C1 c) (ucast V)]\<rparr>"
  from a have w: "i2c_write16 c addr V s = Some (True, ?t1)"
    by (intro i2c_write16_ready) simp_all
  from a have "rxne ?t1 (rx_count ?t1) (millis_ctr ?t1)"
    "rxne ?t1 (Suc (rx_count ?t1)) (millis_ctr ?t1)"
    by simp_all
  from i2c_read16_ready [OF this, of c addr] w
  show "\<exists>t1 t2 u. i2c_write16 c addr V s = Some (True, t1)
      \<and> i2c_read16 c addr t1 = Some (Some u, t2)"
    by blast
qed

theorem i2c_word_roundtrip_witness:
  "\<exists>t1 t2 u. i2c_write16 lepton 0x2A 0xBEEF (board 0 always_ready beef_bytes) = Some (True, t1)
      \<and> bus_log t1 =
           [Set7bitAddress 0x40005400 0x2A, SetWriteTransferDir 0x40005400,
            SetBytesToTransfer 0x40005400 2, EnableAutoend 0x40005400, SendStart 0x40005400,
            SendData 0x40005400 0xBE, SendData 0x40005400 0xEF]
      \<and> i2c_read16 lepton 0x2A t1 = Some (Some u, t2) \<and> u = 0xBEEF"
proof -
  let ?B = "board 0 always_ready beef_bytes"
  have ready: "txis ?B (millis_ctr ?B) \<and> \<not> nackf ?B (millis_ctr ?B)
      \<and> rxne ?B (rx_count ?B) (millis_ctr ?B) \<and> rxne ?B (Suc (rx_count ?B)) (millis_ctr ?B)"
    by (simp add: sample_defs)
  have bytes: "rxdr ?B (rx_count ?B) = ucast (drop_bit 8 (0xBEEF :: u16))"
    "rxdr ?B (Suc (rx_count ?B)) = ucast (0xBEEF :: u16)"
    by (simp_all add: sample_defs)
  note t = i2c_word_roundtrip [where c = lepton and addr = "0x2A" and V = "0xBEEF" and s = ?B]
  from t [THEN conjunct2, THEN conjunct2, THEN conjunct2] ready
  obtain t1 t2 u where run: "i2c_write16 lepton 0x2A 0xBEEF ?B = Some (True, t1)"
    "i2c_read16 lepton 0x2A t1 = Some (Some u, t2)"
    by blast
  from t [where ?s1.0 = t1, THEN conjunct1] run(1)
  have "bus_log t1 = bus_log ?B @
         [Set7bitAddress (I2C1 lepton) 0x2A, SetWriteTransferDir (I2C1 lepton),
          SetBytesToTransfer (I2C1 lepton) 2, EnableAutoend (I2C1 lepton), SendStart (I2C1 lepton),
          SendData (I2C1 lepton) (ucast (drop_bit 8 (0xBEEF :: u16))),
          SendData (I2C1 lepton) (ucast (0xBEEF :: u16))]"
    by blast
  then have log: "bus_log t1 =
           [Set7bitAddress 0x40005400 0x2A, SetWriteTransferDir 0x40005400,
            SetBytesToTransfer 0x40005400 2, EnableAutoend 0x40005400, SendStart 0x40005400,
            SendData 0x40005400 0xBE, SendData 0x40005400 0xEF]"
    by (simp add: sample_defs)
  from t [where ?s1.0 = t1 and w = u and ?s3.0 = t2, THEN conjunct2, THEN conjunct2, THEN conjunct1]
    run bytes
  have "u = 0xBEEF"
    by blast
  with run log show ?thesis
    by blast
qed


section \<open>The data-length check of a GET command\<close>

text \<open>
  C1. In a GET command for \<open>num_words\<close> words, once the two waits and the write of the
  command code have succeeded and the data-length register has been read as \<open>num_bytes\<close>:
  when \<open>num_bytes\<close> is 0 or is not twice \<open>num_words\<close>, \<^verbatim>\<open>read_data_register\<close> and with
  it \<^verbatim>\<open>get_flir_command\<close> return \<^verbatim>\<open>false\<close> in the state the length read left; otherwise,
  and only then, the result is that of \<^verbatim>\<open>i2c_read16_array\<close> for \<open>num_words\<close> words. Up
  to the end of the length read the memory, and so the caller's buffer, is as it was before
  the command.
\<close>

theorem get_flir_command_length_check:
  assumes w1: "wait_busy_bit c (FLIR_BUSY_TIMEOUT c) s = Some (True, sa)"
    and cmd: "write_register c (LEP_I2C_COMMAND_REG c) cmd_code sa = Some (True, sb)"
    and w2: "wait_busy_bit c (FLIR_BUSY_TIMEOUT c) sb = Some (True, sc)"
    and ptr: "i2c_write16 c (LEP_I2C_DEVICE_ADDRESS c) (LEP_I2C_DATA_LENGTH_REG c) sc
                = Some (True, sd)"
    and len: "i2c_read16 c (LEP_I2C_DEVICE_ADDRESS c) sd = Some (Some num_bytes, se)"
  shows "read_data_register c data_words num_words sc =
           (if num_bytes = 0 \<or> uint num_bytes \<noteq> 2 * uint num_words then Some (False, se)
            else i2c_read16_array c (LEP_I2C_DEVICE_ADDRESS c) data_words num_words se)
       \<and> get_flir_command c cmd_code data_words num_words s =
           (if num_bytes = 0 \<or> uint num_bytes \<noteq> 2 * uint num_words then Some (False, se)
            else i2c_read16_array c (LEP_I2C_DEVICE_ADDRESS c) data_words num_words se)
       \<and> mem se = mem s"
proof -
  have "mem sa = mem s"
    using wait_busy_bit_mem [OF w1] by simp
  moreover have "mem sb = mem sa"
    using write_register_frame [OF cmd] by (simp add: bus_frame_def)
  moreover have "mem sc = mem sb"
    using wait_busy_bit_mem [OF w2] by simp
  moreover have "mem sd = mem sc"
    using i2c_write16_frame [OF ptr] by (simp add: bus_frame_def)
  moreover have "mem se = mem sd"
    using i2c_read16_frame [OF len] by (simp add: bus_frame_def)
  ultimately have m: "mem se = mem s"
    by simp
  from read_data_register_after_length [OF ptr len]
    get_flir_command_after_waits [OF w1 cmd w2] m
  show ?thesis by simp
qed

theorem get_flir_command_length_check_witness:
  "read_data_register lepton 100 2
     ((board 0 always_ready length5_bytes)
        \<lparr>bus_log := status_read_log @ command_write_log @ status_read_log, rx_count := 4\<rparr>)
     = Some (False, (board 0 always_ready length5_bytes)
         \<lparr>bus_log := status_read_log @ command_write_log @ status_read_log
            @ length_pointer_log @ word_read_log, rx_count := 6\<rparr>)
   \<and> get_flir_command lepton 0x0304 100 2 (board 0 always_ready length5_bytes)
     = Some (False, (board 0 always_ready length5_bytes)
         \<lparr>bus_log := status_read_log @ command_write_log @ status_read_log
            @ length_pointer_log @ word_read_log, rx_count := 6\<rparr>)
   \<and> mem ((board 0 always_ready length5_bytes)
         \<lparr>bus_log := status_read_log @ command_write_log @ status_read_log
            @ length_pointer_log @ word_read_log, rx_count := 6\<rparr>)
     = mem (board 0 always_ready length5_bytes)"
proof -
  let ?B = "board 0 always_ready length5_bytes"
  have w1: "wait_busy_bit lepton (FLIR_BUSY_TIMEOUT lepton) ?B
      = Some (True, ?B\<lparr>bus_log := status_read_log, rx_count := 2\<rparr>)"
    by (simp add: eval_defs sample_defs)
  have cmd: "write_register lepton (LEP_I2C_COMMAND_REG lepton) 0x0304
        (?B\<lparr>bus_log := status_read_log, rx_count := 2\<rparr>)
      = Some (True, ?B\<lparr>bus_log := status_read_log @ command_write_log, rx_count := 2\<rparr>)"
    by (simp add: eval_defs sample_defs)
  have w2: "wait_busy_bit lepton (FLIR_BUSY_TIMEOUT lepton)
        (?B\<lparr>bus_log := status_read_log @ command_write_log, rx_count := 2\<rparr>)
      = Some (True, ?B\<lparr>bus_log := status_read_log @ command_write_log @ status_read_log,
                        rx_count := 4\<rparr>)"
    by (simp add: eval_defs sample_defs)
  have ptr: "i2c_write16 lepton (LEP_I2C_DEVICE_ADDRESS lepton) (LEP_I2C_DATA_LENGTH_REG lepton)
        (?B\<lparr>bus_log := status_read_log @ command_write_log @ status_read_log, rx_count := 4\<rparr>)
      = Some (True, ?B\<lparr>bus_log := status_read_log @ command_write_log @ status_read_log
                         @ length_pointer_log, rx_count := 4\<rparr>)"
    by (simp add: eval_defs sample_defs)
  have len: "i2c_read16 lepton (LEP_I2C_DEVICE_ADDRESS lepton)
        (?B\<lparr>bus_log := status_read_log @ command_write_log @ status_read_log
            @ length_pointer_log, rx_count := 4\<rparr>)
      = Some (Some 5, ?B\<lparr>bus_log := status_read_log @ command_write_log @ status_read_log
                         @ length_pointer_log @ word_read_log, rx_count := 6\<rparr>)"
    by (simp add: eval_defs sample_defs)
  from get_flir_command_length_check [OF w1 cmd w2 ptr len, of 100 2] show ?thesis
    by simp
qed

section \<open>The eight-bit counter of the word-array read\<close>

text \<open>
  C9, as the code has it. The claim says that \<^verbatim>\<open>i2c_read16_array\<close> ends only for 1 to
  127 words and never ends for 128 or more. It also ends for no word at all, and for 128
  words or more it ends, with \<^verbatim>\<open>false\<close>, as soon as a byte does not arrive in time:
\<close>

theorem i2c_read16_array_returns_counterexample:
  "i2c_read16_array lepton 0x2A 100 128 (board 0 never_ready beef_bytes)
       = Some (False, (board 0 never_ready beef_bytes)\<lparr>millis_ctr := 4, bus_log :=
           [Set7bitAddress 0x40005400 0x2A, SetReadTransferDir 0x40005400,
            SetBytesToTransfer 0x40005400 0, SendStart 0x40005400, EnableAutoend 0x40005400]\<rparr>)
   \<and> i2c_read16_array lepton 0x2A 100 0 (board 0 never_ready beef_bytes)
       = Some (True, (board 0 never_ready beef_bytes)\<lparr>bus_log :=
           [Set7bitAddress 0x40005400 0x2A, SetReadTransferDir 0x40005400,
            SetBytesToTransfer 0x40005400 0, SendStart 0x40005400, EnableAutoend 0x40005400]\<rparr>)"
  by (simp add: read_array_eval eval_defs spin_simps sample_defs)

text \<open>
  C9, amended. With every byte arriving, \<^verbatim>\<open>i2c_read16_array\<close> returns \<^verbatim>\<open>true\<close> for 0 to
  127 words. Whatever the device does, it returns \<^verbatim>\<open>true\<close> for no other word count, and
  when it returns \<^verbatim>\<open>true\<close> it has taken exactly twice as many bytes as words. For 128
  words or more the \<^verbatim>\<open>uint8_t\<close> counter stays below the bound: the call does not return
  while every byte arrives. At every byte, the first or a later one, a byte wait that
  times out makes the loop return \<^verbatim>\<open>false\<close> with the state of that wait. So on a device
  that delivers \<^term>\<open>k\<close> bytes and then no more, with \<^term>\<open>k\<close> below twice the word count or
  the word count 128 or more, the call returns \<^verbatim>\<open>false\<close> after taking exactly \<^term>\<open>k\<close>
  bytes, one tick after the deadline of the wait for the next byte. Whenever the call
  returns, all it has added to the bus log is the set-up of the read, whose byte count is
  twice the word count modulo 256.
\<close>

theorem i2c_read16_array_counter:
  "(unat num_words \<le> 127 \<and> rxne s = (\<lambda>_ _. True)
      \<longrightarrow> (\<exists>s'. i2c_read16_array c addr data num_words s = Some (True, s')
                \<and> rx_count s' = rx_count s + 2 * unat num_words))
   \<and> (\<forall>s'. i2c_read16_array c addr data num_words s = Some (True, s')
          \<longrightarrow> unat num_words \<le> 127 \<and> rx_count s' = rx_count s + 2 * unat num_words)
   \<and> (128 \<le> unat num_words \<and> rxne s = (\<lambda>_ _. True)
          \<longrightarrow> i2c_read16_array c addr data num_words s = None)
   \<and> (uint i < 2 * uint num_words
        \<and> wait_for_empty_data_reg c (I2C_TIMEOUT c) sa = Some (False, sb)
          \<longrightarrow> i2c_read16_array_loop c num_words i high_byte high data' sa = Some (False, sb))
   \<and> ((128 \<le> unat num_words \<or> k < 2 * unat num_words)
        \<and> rxne s = (\<lambda>j t. j < rx_count s + k)
        \<and> unat (millis_ctr s) + unat (I2C_TIMEOUT c) + 1 < 2 ^ 64
          \<longrightarrow> (\<exists>s'. i2c_read16_array c addr data num_words s = Some (False, s')
                    \<and> rx_count s' = rx_count s + k
                    \<and> millis_ctr s' = millis_ctr s + ucast (I2C_TIMEOUT c) + 1))
   \<and> (\<forall>r. i2c_read16_array c addr data num_words s = Some r
          \<longrightarrow> (\<exists>m. bus_log (snd r) = bus_log s @
                     [Set7bitAddress (I2C1 c) addr, SetReadTransferDir (I2C1 c),
                      SetBytesToTransfer (I2C1 c) m, SendStart (I2C1 c), EnableAutoend (I2C1 c)]
                   \<and> unat m = 2 * unat num_words mod 256))"
proof -
  let ?s0 = "i2c_prepare (I2C1 c) addr I2C_READ_DIR (2 * num_words) s"
  have dev: "rxne ?s0 = rxne s" and cnt: "rx_count ?s0 = rx_count s"
    and clk: "millis_ctr ?s0 = millis_ctr s"
    and log: "bus_log ?s0 = bus_log s @
                     [Set7bitAddress (I2C1 c) addr, SetReadTransferDir (I2C1 c),
                      SetBytesToTransfer (I2C1 c) (2 * num_words), SendStart (I2C1 c),
                      EnableAutoend (I2C1 c)]"
    by (simp_all add: i2c_prepare_def Let_def I2C_READ_DIR_def periph_defs)
  have p1: "\<exists>s'. i2c_read16_array c addr data num_words s = Some (True, s')
        \<and> rx_count s' = rx_count s + 2 * unat num_words"
    if a: "unat num_words \<le> 127 \<and> rxne s = (\<lambda>_ _. True)"
  proof -
    from a have "\<exists>s'. i2c_read16_array_loop c num_words 0 True 0 data ?s0 = Some (True, s')
        \<and> rx_count s' = rx_count ?s0 + 2 * unat num_words"
      by (intro read16_array_loop_counts) (simp_all add: dev)
    then show ?thesis
      by (simp add: i2c_read16_array_def cnt)
  qed
  have p2: "unat num_words \<le> 127 \<and> rx_count s' = rx_count s + 2 * unat num_words"
    if a: "i2c_read16_array c addr data num_words s = Some (True, s')" for s'
  proof -
    from a have "i2c_read16_array_loop c num_words 0 True 0 data ?s0 = Some (True, s')"
      by (simp add: i2c_read16_array_def)
    from read16_array_loop_success [OF this] show ?thesis
      by (simp add: cnt)
  qed
  have p3: "i2c_read16_array c addr data num_words s = None"
    if a: "128 \<le> unat num_words \<and> rxne s = (\<lambda>_ _. True)"
  proof -
    from a have "i2c_read16_array_loop c num_words 0 True 0 data ?s0 = None"
      by (intro read16_array_loop_diverges) (simp_all add: dev)
    then show ?thesis
      by (simp add: i2c_read16_array_def)
  qed
  have p4: "i2c_read16_array_loop c num_words i high_byte high data' sa = Some (False, sb)"
    if a: "uint i < 2 * uint num_words
        \<and> wait_for_empty_data_reg c (I2C_TIMEOUT c) sa = Some (False, sb)"
    using a by (intro read16_array_loop_timeout) simp_all
  have p5: "\<exists>s'. i2c_read16_array c addr data num_words s = Some (False, s')
                    \<and> rx_count s' = rx_count s + k
                    \<and> millis_ctr s' = millis_ctr s + ucast (I2C_TIMEOUT c) + 1"
    if a: "(128 \<le> unat num_words \<or> k < 2 * unat num_words)
        \<and> rxne s = (\<lambda>j t. j < rx_count s + k)
        \<and> unat (millis_ctr s) + unat (I2C_TIMEOUT c) + 1 < 2 ^ 64"
  proof -
    from a have "\<exists>s'. i2c_read16_array_loop c num_words 0 True 0 data ?s0 = Some (False, s')
           \<and> rx_count s' = rx_count ?s0 + k
           \<and> millis_ctr s' = millis_ctr ?s0 + ucast (I2C_TIMEOUT c) + 1"
      by (intro read16_array_loop_stops) (simp_all add: dev cnt clk)
    then show ?thesis
      by (simp add: i2c_read16_array_def cnt clk)
  qed
  have p6: "\<exists>m. bus_log (snd r) = bus_log s @
                     [Set7bitAddress (I2C1 c) addr, SetReadTransferDir (I2C1 c),
                      SetBytesToTransfer (I2C1 c) m, SendStart (I2C1 c), EnableAutoend (I2C1 c)]
                   \<and> unat m = 2 * unat num_words mod 256"
    if a: "i2c_read16_array c addr data num_words s = Some r" for r
  proof -
    from a have "i2c_read16_array_loop c num_words 0 True 0 data ?s0 = Some r"
      by (simp add: i2c_read16_array_def)
    from read16_array_loop_log [OF this] log
    have "bus_log (snd r) = bus_log s @
                     [Set7bitAddress (I2C1 c) addr, SetReadTransferDir (I2C1 c),
                      SetBytesToTransfer (I2C1 c) (2 * num_words), SendStart (I2C1 c),
                      EnableAutoend (I2C1 c)]"
      by simp
    moreover have "unat (2 * num_words) = 2 * unat num_words mod 256"
      by (simp add: unat_word_ariths)
    ultimately show ?thesis
      by blast
  qed
  from p1 p2 p3 p4 p5 p6 show ?thesis
    by blast
qed

theorem i2c_read16_array_counter_witness:
  "(\<exists>s'. i2c_read16_array lepton 0x2A 100 2 (board 0 always_ready beef_bytes) = Some (True, s')
         \<and> rx_count s' = rx_count (board 0 always_ready beef_bytes) + 2 * unat (2 :: u8))
   \<and> i2c_read16_array lepton 0x2A 100 128 (board 0 always_ready beef_bytes) = None
   \<and> i2c_read16_array_loop lepton 128 3 False 0 101
        ((board 0 never_ready beef_bytes)\<lparr>rxne := three_bytes_only, rx_count := 3\<rparr>)
       = Some (False, (board 0 never_ready beef_bytes)
                 \<lparr>rxne := three_bytes_only, rx_count := 3, millis_ctr := 4\<rparr>)
   \<and> (\<exists>s'. i2c_read16_array lepton 0x2A 100 128
               ((board 0 never_ready beef_bytes)\<lparr>rxne := three_bytes_only\<rparr>) = Some (False, s')
         \<and> rx_count s' = 3 \<and> millis_ctr s' = 4
         \<and> bus_log s' =
             [Set7bitAddress 0x40005400 0x2A, SetReadTransferDir 0x40005400,
              SetBytesToTransfer 0x40005400 0, SendStart 0x40005400, EnableAutoend 0x40005400])"
proof -
  let ?B = "board 0 always_ready beef_bytes"
  let ?D = "(board 0 never_ready beef_bytes)\<lparr>rxne := three_bytes_only\<rparr>"
  let ?D3 = "(board 0 never_ready beef_bytes)\<lparr>rxne := three_bytes_only, rx_count := 3\<rparr>"
  have dev: "rxne ?B = (\<lambda>_ _. True)"
    by (simp add: sample_defs)
  have a: "\<exists>s'. i2c_read16_array lepton 0x2A 100 2 ?B = Some (True, s')
        \<and> rx_count s' = rx_count ?B + 2 * unat (2 :: u8)"
    using i2c_read16_array_counter [where num_words = 2 and s = ?B and c = lepton
        and addr = "0x2A" and data = 100, THEN conjunct1] dev
    by simp
  have b: "i2c_read16_array lepton 0x2A 100 128 ?B = None"
    using i2c_read16_array_counter [where num_words = 128 and s = ?B and c = lepton
        and addr = "0x2A" and data = 100, THEN conjunct2, THEN conjunct2, THEN conjunct1] dev
    by simp
  have tmo: "wait_for_empty_data_reg lepton (I2C_TIMEOUT lepton) ?D3
      = Some (False, ?D3\<lparr>millis_ctr := 4\<rparr>)"
    by (simp add: eval_defs spin_simps sample_defs three_bytes_only_def)
  have c: "i2c_read16_array_loop lepton 128 3 False 0 101 ?D3 = Some (False, ?D3\<lparr>millis_ctr := 4\<rparr>)"
    using i2c_read16_array_counter [where num_words = 128 and c = lepton and i = 3
        and sa = ?D3 and sb = "?D3\<lparr>millis_ctr := 4\<rparr>" and high_byte = False and high = 0
        and data' = 101,
        THEN conjunct2, THEN conjunct2, THEN conjunct2, THEN conjunct1] tmo
    by simp
  have stops: "rxne ?D = (\<lambda>j t. j < rx_count ?D + 3)"
    by (simp add: sample_defs three_bytes_only_def)
  have room: "unat (millis_ctr ?D) + unat (I2C_TIMEOUT lepton) + 1 < 2 ^ 64"
    by (simp add: sample_defs)
  from i2c_read16_array_counter [where num_words = 128 and s = ?D and c = lepton
        and addr = "0x2A" and data = 100 and k = 3,
        THEN conjunct2, THEN conjunct2, THEN conjunct2, THEN conjunct2, THEN conjunct1]
    stops room
  obtain s' where run: "i2c_read16_array lepton 0x2A 100 128 ?D = Some (False, s')"
    and n: "rx_count s' = rx_count ?D + 3"
    and t: "millis_ctr s' = millis_ctr ?D + ucast (I2C_TIMEOUT lepton) + 1"
    by auto
  from i2c_read16_array_counter [where num_words = 128 and s = ?D and c = lepton
        and addr = "0x2A" and data = 100,
        THEN conjunct2, THEN conjunct2, THEN conjunct2, THEN conjunct2, THEN conjunct2] run
  obtain m where l: "bus_log s' = bus_log ?D @
                     [Set7bitAddress (I2C1 lepton) 0x2A, SetReadTransferDir (I2C1 lepton),
                      SetBytesToTransfer (I2C1 lepton) m, SendStart (I2C1 lepton),
                      EnableAutoend (I2C1 lepton)]"
    and m: "unat m = 2 * unat (128 :: u8) mod 256"
    by auto
  from m have "m = 0"
    by (simp add: unat_eq_0)
  with l have l': "bus_log s' =
             [Set7bitAddress 0x40005400 0x2A, SetReadTransferDir 0x40005400,
              SetBytesToTransfer 0x40005400 0, SendStart 0x40005400, EnableAutoend 0x40005400]"
    by (simp add: sample_defs)
  from n have n': "rx_count s' = 3"
    by (simp add: sample_defs)
  from t have t': "millis_ctr s' = 4"
    by (simp add: sample_defs)
  from run n' t' l' have d: "\<exists>s'. i2c_read16_array lepton 0x2A 100 128 ?D = Some (False, s')
         \<and> rx_count s' = 3 \<and> millis_ctr s' = 4
         \<and> bus_log s' =
             [Set7bitAddress 0x40005400 0x2A, SetReadTransferDir 0x40005400,
              SetBytesToTransfer 0x40005400 0, SendStart 0x40005400, EnableAutoend 0x40005400]"
    by blast
  from a b c d show ?thesis
    by (intro conjI)
qed


section \<open>A failed read and a timeout, as the caller sees them\<close>

text \<open>
  C6, as the code has it. The claim says that the caller can tell a failed status read in
  the polling loop from a busy bit that never cleared. In the first run below the second
  status read times out on the bus; in the second the busy bit is still set at the
  deadline. \<^verbatim>\<open>wait_busy_bit\<close> returns \<^verbatim>\<open>false\<close> in both, \<^verbatim>\<open>get_last_flir_result\<close>
  returns the same code after both, and in both the clock has reached the deadline (2) by
  the time of the return.
\<close>

theorem wait_busy_bit_same_false_counterexample:
  "wait_busy_loop lepton 2 1
       ((board 0 ready_at_zero_only busy_bytes)\<lparr>bus_log := status_read_log, rx_count := 2\<rparr>)
     = Some (None, (board 0 ready_at_zero_only busy_bytes)
         \<lparr>millis_ctr := 5, bus_log := status_read_log @ status_read_log, rx_count := 2\<rparr>)
   \<and> wait_busy_bit lepton 2 (board 0 ready_at_zero_only busy_bytes)
     = Some (False, (board 0 ready_at_zero_only busy_bytes)
         \<lparr>millis_ctr := 5, bus_log := status_read_log @ status_read_log, rx_count := 2\<rparr>)
   \<and> wait_busy_loop lepton 2 1
       ((board 0 always_ready busy_bytes)\<lparr>bus_log := status_read_log, rx_count := 2\<rparr>)
     = Some (Some 1, (board 0 always_ready busy_bytes)
         \<lparr>millis_ctr := 2, bus_log := status_read_log @ status_read_log @ status_read_log,
          rx_count := 6\<rparr>)
   \<and> wait_busy_bit lepton 2 (board 0 always_ready busy_bytes)
     = Some (False, (board 0 always_ready busy_bytes)
         \<lparr>millis_ctr := 2, console := [''Fail 3'' @ [CHR 0x0A]],
          bus_log := status_read_log @ status_read_log @ status_read_log, rx_count := 6\<rparr>)
   \<and> get_last_flir_result ((board 0 ready_at_zero_only busy_bytes)
         \<lparr>millis_ctr := 5, bus_log := status_read_log @ status_read_log, rx_count := 2\<rparr>)
     = get_last_flir_result ((board 0 always_ready busy_bytes)
         \<lparr>millis_ctr := 2, console := [''Fail 3'' @ [CHR 0x0A]],
          bus_log := status_read_log @ status_read_log @ status_read_log, rx_count := 6\<rparr>)
   \<and> 2 \<le> flir_millis ((board 0 ready_at_zero_only busy_bytes)
         \<lparr>millis_ctr := 5, bus_log := status_read_log @ status_read_log, rx_count := 2\<rparr>)
   \<and> 2 \<le> flir_millis ((board 0 always_ready busy_bytes)
         \<lparr>millis_ctr := 2, console := [''Fail 3'' @ [CHR 0x0A]],
          bus_log := status_read_log @ status_read_log @ status_read_log, rx_count := 6\<rparr>)"
  by (simp add: eval_defs spin_simps sample_defs)

text \<open>
  C6, amended. A status read that fails inside the polling loop ends the loop in that very
  iteration, in the state the failed read left, and \<^verbatim>\<open>wait_busy_bit\<close> returns \<^verbatim>\<open>false\<close>
  with the last-error slot and the console untouched. When the loop ends with the busy bit
  still set, \<^verbatim>\<open>wait_busy_bit\<close> returns the same \<^verbatim>\<open>false\<close>, after printing "Fail 3": the
  printed line is all that differs.
\<close>

theorem wait_busy_bit_read_failure_and_timeout:
  "(st AND LEP_I2C_STATUS_BUSY_BIT_MASK c \<noteq> 0 \<and> flir_millis sa < e
      \<and> read_register c (LEP_I2C_STATUS_REG c) (flir_delay 1 sa) = Some (None, sb)
      \<longrightarrow> wait_busy_loop c e st sa = Some (None, sb))
   \<and> (read_register c (LEP_I2C_STATUS_REG c) s = Some (Some status, s1)
        \<and> status AND LEP_I2C_STATUS_BUSY_BIT_MASK c \<noteq> 0
        \<and> wait_busy_loop c (flir_millis s1 + ucast timeout) status s1 = Some (None, s2)
      \<longrightarrow> wait_busy_bit c timeout s = Some (False, s2)
          \<and> last_flir_error s2 = last_flir_error s \<and> console s2 = console s)
   \<and> (read_register c (LEP_I2C_STATUS_REG c) s = Some (Some status, s1)
        \<and> status AND LEP_I2C_STATUS_BUSY_BIT_MASK c \<noteq> 0
        \<and> wait_busy_loop c (flir_millis s1 + ucast timeout) status s1 = Some (Some status', s3)
        \<and> status' AND LEP_I2C_STATUS_BUSY_BIT_MASK c \<noteq> 0
      \<longrightarrow> wait_busy_bit c timeout s = Some (False, printf (''Fail 3'' @ [CHR 0x0A]) s3)
          \<and> last_flir_error s3 = last_flir_error s)"
proof (intro conjI impI)
  assume "st AND LEP_I2C_STATUS_BUSY_BIT_MASK c \<noteq> 0 \<and> flir_millis sa < e
      \<and> read_register c (LEP_I2C_STATUS_REG c) (flir_delay 1 sa) = Some (None, sb)"
  then show "wait_busy_loop c e st sa = Some (None, sb)"
    by (intro wait_busy_loop_read_failure) simp_all
next
  assume a: "read_register c (LEP_I2C_STATUS_REG c) s = Some (Some status, s1)
        \<and> status AND LEP_I2C_STATUS_BUSY_BIT_MASK c \<noteq> 0
        \<and> wait_busy_loop c (flir_millis s1 + ucast timeout) status s1 = Some (None, s2)"
  then show "wait_busy_bit c timeout s = Some (False, s2)"
    by (simp add: wait_busy_bit_def)
  from a have "bus_frame s s1" "bus_frame s1 s2"
    using read_register_frame wait_busy_loop_frame by fastforce+
  then have f: "bus_frame s s2"
    by (rule bus_frame_trans)
  from f show "last_flir_error s2 = last_flir_error s"
    by (simp add: bus_frame_def)
  from f show "console s2 = console s"
    by (simp add: bus_frame_def)
next
  assume a: "read_register c (LEP_I2C_STATUS_REG c) s = Some (Some status, s1)
        \<and> status AND LEP_I2C_STATUS_BUSY_BIT_MASK c \<noteq> 0
        \<and> wait_busy_loop c (flir_millis s1 + ucast timeout) status s1 = Some (Some status', s3)
        \<and> status' AND LEP_I2C_STATUS_BUSY_BIT_MASK c \<noteq> 0"
  then show "wait_busy_bit c timeout s = Some (False, printf (''Fail 3'' @ [CHR 0x0A]) s3)"
    by (simp add: wait_busy_bit_def)
  from a have "bus_frame s s1" "bus_frame s1 s3"
    using read_register_frame wait_busy_loop_frame by fastforce+
  then have "bus_frame s s3"
    by (rule bus_frame_trans)
  then show "last_flir_error s3 = last_flir_error s"
    by (simp add: bus_frame_def)
qed

theorem wait_busy_bit_read_failure_and_timeout_witness:
  "wait_busy_loop lepton 2 1
       ((board 0 ready_at_zero_only busy_bytes)\<lparr>bus_log := status_read_log, rx_count := 2\<rparr>)
     = Some (None, (board 0 ready_at_zero_only busy_bytes)
         \<lparr>millis_ctr := 5, bus_log := status_read_log @ status_read_log, rx_count := 2\<rparr>)
   \<and> (wait_busy_bit lepton 2 (board 0 ready_at_zero_only busy_bytes)
        = Some (False, (board 0 ready_at_zero_only busy_bytes)
            \<lparr>millis_ctr := 5, bus_log := status_read_log @ status_read_log, rx_count := 2\<rparr>)
      \<and> last_flir_error ((board 0 ready_at_zero_only busy_bytes)
            \<lparr>millis_ctr := 5, bus_log := status_read_log @ status_read_log, rx_count := 2\<rparr>)
        = last_flir_error (board 0 ready_at_zero_only busy_bytes)
      \<and> console ((board 0 ready_at_zero_only busy_bytes)
            \<lparr>millis_ctr := 5, bus_log := status_read_log @ status_read_log, rx_count := 2\<rparr>)
        = console (board 0 ready_at_zero_only busy_bytes))
   \<and> (wait_busy_bit lepton 2 (board 0 always_ready busy_bytes)
        = Some (False, printf (''Fail 3'' @ [CHR 0x0A]) ((board 0 always_ready busy_bytes)
            \<lparr>millis_ctr := 2, bus_log := status_read_log @ status_read_log @ status_read_log,
             rx_count := 6\<rparr>))
      \<and> last_flir_error ((board 0 always_ready busy_bytes)
            \<lparr>millis_ctr := 2, bus_log := status_read_log @ status_read_log @ status_read_log,
             rx_count := 6\<rparr>)
        = last_flir_error (board 0 always_ready busy_bytes))"
proof -
  let ?A = "board 0 ready_at_zero_only busy_bytes"
  let ?A1 = "?A\<lparr>bus_log := status_read_log, rx_count := 2\<rparr>"
  let ?A2 = "?A\<lparr>millis_ctr := 5, bus_log := status_read_log @ status_read_log, rx_count := 2\<rparr>"
  let ?B = "board 0 always_ready busy_bytes"
  let ?B1 = "?B\<lparr>bus_log := status_read_log, rx_count := 2\<rparr>"
  let ?B3 = "?B\<lparr>millis_ctr := 2, bus_log := status_read_log @ status_read_log @ status_read_log,
             rx_count := 6\<rparr>"
  have busy: "(1 :: u16) AND LEP_I2C_STATUS_BUSY_BIT_MASK lepton \<noteq> 0"
    by (simp add: lepton_def)
  have before: "flir_millis ?A1 < 2"
    by (simp add: flir_millis_def millis_def sample_defs)
  have failed: "read_register lepton (LEP_I2C_STATUS_REG lepton) (flir_delay 1 ?A1) = Some (None, ?A2)"
    by (simp add: eval_defs spin_simps sample_defs)
  have firstA: "read_register lepton (LEP_I2C_STATUS_REG lepton) ?A = Some (Some 1, ?A1)"
    by (simp add: eval_defs sample_defs)
  have loopA: "wait_busy_loop lepton (flir_millis ?A1 + ucast (2 :: u16)) 1 ?A1 = Some (None, ?A2)"
    by (simp add: eval_defs spin_simps sample_defs)
  have firstB: "read_register lepton (LEP_I2C_STATUS_REG lepton) ?B = Some (Some 1, ?B1)"
    by (simp add: eval_defs sample_defs)
  have loopB: "wait_busy_loop lepton (flir_millis ?B1 + ucast (2 :: u16)) 1 ?B1 = Some (Some 1, ?B3)"
    by (simp add: eval_defs spin_simps sample_defs)
  have a: "wait_busy_loop lepton 2 1 ?A1 = Some (None, ?A2)"
    using wait_busy_bit_read_failure_and_timeout
      [of 1 lepton ?A1 2 ?A2, THEN conjunct1] busy before failed
    by simp
  have b: "wait_busy_bit lepton 2 ?A = Some (False, ?A2)
      \<and> last_flir_error ?A2 = last_flir_error ?A \<and> console ?A2 = console ?A"
    using wait_busy_bit_read_failure_and_timeout
      [where c = lepton and s = ?A and status = 1 and ?s1.0 = ?A1 and timeout = 2
         and ?s2.0 = ?A2, THEN conjunct2, THEN conjunct1] busy firstA loopA
    by simp
  have c: "wait_busy_bit lepton 2 ?B = Some (False, printf (''Fail 3'' @ [CHR 0x0A]) ?B3)
      \<and> last_flir_error ?B3 = last_flir_error ?B"
    using wait_busy_bit_read_failure_and_timeout
      [where c = lepton and s = ?B and status = 1 and ?s1.0 = ?B1 and timeout = 2
         and status' = 1 and ?s3.0 = ?B3, THEN conjunct2, THEN conjunct2] busy firstB loopB
    by simp
  from a b c show ?thesis
    by (intro conjI) simp_all
qed

section \<open>The deadline of the busy wait\<close>

text \<open>
  C3. The claim: with the busy bit set in every status read, \<^verbatim>\<open>wait_busy_bit\<close> returns
  \<^verbatim>\<open>false\<close> no earlier than \<open>timeout\<close> milliseconds after it has computed its deadline.
  \<^verbatim>\<open>flir_millis\<close> cuts the 64-bit counter to 32 bits and the deadline is a 32-bit sum. With
  the counter at \<open>2\<^sup>3\<^sup>2 - 10\<close> and a timeout of 50 the deadline wraps to 40, the loop is not
  entered, and the function returns \<^verbatim>\<open>false\<close> with the counter where it was: no
  millisecond has passed.
\<close>

theorem wait_busy_bit_deadline_wraps:
  "wait_busy_bit lepton 50 (board 0xFFFFFFF6 always_ready busy_bytes)
     = Some (False, (board 0xFFFFFFF6 always_ready busy_bytes)
         \<lparr>console := [''Fail 3'' @ [CHR 0x0A]], bus_log := status_read_log, rx_count := 2\<rparr>)
   \<and> millis (board 0xFFFFFFF6 always_ready busy_bytes
         \<lparr>console := [''Fail 3'' @ [CHR 0x0A]], bus_log := status_read_log, rx_count := 2\<rparr>)
     = millis (board 0xFFFFFFF6 always_ready busy_bytes)"
  by (simp add: eval_defs spin_simps sample_defs)

text \<open>
  Away from the wrap-around the claim holds: on a device that answers at once and shows the
  busy bit in every status word, \<^verbatim>\<open>wait_busy_bit\<close> returns \<^verbatim>\<open>false\<close> exactly \<open>timeout\<close>
  milliseconds after its deadline computation (lemma \<open>wait_busy_bit_stuck_busy\<close> above).
\<close>


section \<open>The register address of a SET payload\<close>



end
